theory Spec2Isabelle
  imports Complex_Main "HOL-Library.AList" "HOL-Library.Multiset"
begin

section \<open>JavaScript values\<close>

text \<open>
  The numbers the connection computes with are array indices and counters. An index is an
  integer, or \<open>NaN\<close> once a cursor has been advanced modulo an empty host list
  (\<open>x % 0\<close> is \<open>NaN\<close> in JavaScript, and \<open>NaN + 1\<close> stays \<open>NaN\<close>).
\<close>

datatype jsnum = Num int | NaN

definition js_rem :: "int \<Rightarrow> int \<Rightarrow> jsnum" where
  \<comment> \<open>\<open>a % n\<close> on integers: the sign follows the dividend; \<open>NaN\<close> for \<open>n = 0\<close>.\<close>
  "js_rem a n = (if n = 0 then NaN else Num (sgn a * (\<bar>a\<bar> mod \<bar>n\<bar>)))"

fun next_index :: "jsnum \<Rightarrow> nat \<Rightarrow> jsnum" where
  \<comment> \<open>\<open>(cursor + 1) % this._hosts.length\<close>\<close>
  "next_index (Num i) n = js_rem (i + 1) (int n)"
| "next_index NaN n = NaN"

fun strict_eq :: "jsnum \<Rightarrow> jsnum \<Rightarrow> bool" where
  \<comment> \<open>\<open>===\<close> on numbers: \<open>NaN\<close> is equal to nothing, itself included.\<close>
  "strict_eq (Num a) (Num b) = (a = b)"
| "strict_eq _ _ = False"

fun falsy_host :: "jsnum option \<Rightarrow> bool" where
  \<comment> \<open>\<open>!task.host\<close>: \<open>undefined\<close>, \<open>0\<close> and \<open>NaN\<close> are falsy.\<close>
  "falsy_host None = True"
| "falsy_host (Some (Num i)) = (i = 0)"
| "falsy_host (Some NaN) = True"

fun indexOf :: "'a list \<Rightarrow> 'a \<Rightarrow> int" where
  \<comment> \<open>\<open>Array.prototype.indexOf\<close>: the first position of the element, \<open>-1\<close> when absent.\<close>
  "indexOf [] x = -1"
| "indexOf (y # ys) x =
     (if y = x then 0 else (let i = indexOf ys x in if i = -1 then -1 else i + 1))"

definition starts_with :: "string \<Rightarrow> string \<Rightarrow> bool" where
  "starts_with p s = (take (length p) s = p)"

definition line_terminator :: "char \<Rightarrow> bool" where
  \<comment> \<open>The characters the regular expression atom \<open>.\<close> refuses (LF and CR; the two
      Unicode separators U+2028 and U+2029 are outside the 8-bit characters of \<open>string\<close>).\<close>
  "line_terminator c = (c = CHR 0x0A \<or> c = CHR 0x0D)"

definition dot_plus :: "string \<Rightarrow> string option" where
  \<comment> \<open>A greedy \<open>.+\<close> at the start of the text: the longest run without a line terminator,
      which must not be empty.\<close>
  "dot_plus s =
     (let m = takeWhile (\<lambda>c. \<not> line_terminator c) s in if m = [] then None else Some m)"

text \<open>
  Errors are objects. \<open>isSystemError\<close> looks at the prototype and at three own properties,
  the retry test at the values of two of them, and the rejection path appends the task's
  captured stack to \<open>err.stack\<close>.
\<close>

datatype error_proto = ErrorProto | TypeErrorProto | SyntaxErrorProto

record js_error =
  err_proto :: error_proto
  err_message :: string
  err_code :: "string option"
  err_errno :: "int option"
  err_syscall :: "string option"
  err_stack :: string

definition new_Error :: "string \<Rightarrow> js_error" where
  "new_Error msg =
     \<lparr>err_proto = ErrorProto, err_message = msg, err_code = None, err_errno = None,
      err_syscall = None, err_stack = []\<rparr>"

definition new_TypeError :: "string \<Rightarrow> js_error" where
  "new_TypeError msg =
     \<lparr>err_proto = TypeErrorProto, err_message = msg, err_code = None, err_errno = None,
      err_syscall = None, err_stack = []\<rparr>"

definition isSystemError :: "js_error \<Rightarrow> bool" where
  "isSystemError err =
     (err_proto err = ErrorProto \<and> err_code err \<noteq> None \<and> err_errno err \<noteq> None \<and>
      err_syscall err \<noteq> None)"

section \<open>URL normalisation (lib/normalizeUrl)\<close>

definition match_raw :: "string \<Rightarrow> (string \<times> string) option" where
  \<comment> \<open>\<open>url.match(/^(tcp|ssl|tls)((?::|\+).+)/)\<close>: groups 1 and 2.\<close>
  "match_raw url =
     (let scheme = take 3 url in
      if scheme = ''tcp'' \<or> scheme = ''ssl'' \<or> scheme = ''tls'' then
        (case drop 3 url of
           [] \<Rightarrow> None
         | sep # cs \<Rightarrow>
             if sep = CHR '':'' \<or> sep = CHR ''+'' then
               (case dot_plus cs of None \<Rightarrow> None | Some m \<Rightarrow> Some (scheme, sep # m))
             else None)
      else None)"

definition match_unix :: "string \<Rightarrow> (string option \<times> string) option" where
  \<comment> \<open>\<open>url.match(/^(?:(https?)\+)?unix:\/\/(\/.+)/)\<close>: groups 1 (optional) and 2.\<close>
  "match_unix url =
     (let (scheme, rest) =
            (if starts_with ''https+'' url then (Some ''https'', drop 6 url)
             else if starts_with ''http+'' url then (Some ''http'', drop 5 url)
             else (None, url)) in
      if starts_with ''unix://'' rest then
        (case drop 7 rest of
           [] \<Rightarrow> None
         | c # cs \<Rightarrow>
             if c = CHR ''/'' then
               (case dot_plus cs of None \<Rightarrow> None | Some m \<Rightarrow> Some (scheme, c # m))
             else None)
      else None)"

definition normalizeUrl :: "string \<Rightarrow> string" where
  "normalizeUrl url =
     (let url1 = (case match_raw url of
                    Some (scheme, rest) \<Rightarrow> (if scheme = ''tcp'' then ''http'' else ''https'') @ rest
                  | None \<Rightarrow> url);
          url2 = (case match_unix url1 of
                    Some (scheme, path) \<Rightarrow>
                      (case scheme of Some s \<Rightarrow> s | None \<Rightarrow> ''http'') @ ''://unix:'' @ path
                  | None \<Rightarrow> url1)
      in url2)"

section \<open>Transport functions (lib/request.node)\<close>

text \<open>
  \<open>createRequest\<close> parses the base URL with Node's \<open>url.parse\<close>, which is not part of the
  repository: the parser is a parameter, and of its result only the two fields that decide
  whether \<open>createRequest\<close> throws are kept. The function it returns is an opaque value
  bound to its base URL; what it does when called is the environment's choice (section
  \<open>Events\<close>). The Node transport never throws and never calls back synchronously: its
  own \<open>catch\<close> defers the callback with \<open>setTimeout\<close>.
\<close>

record url_parts =
  protocol :: "string option"
  pathname :: "string option"

datatype RequestFunction = RequestFunction string

fun find_char :: "char \<Rightarrow> string \<Rightarrow> nat option" where
  \<comment> \<open>\<open>String.prototype.indexOf\<close> of one character, \<open>None\<close> for \<open>-1\<close>.\<close>
  "find_char c [] = None"
| "find_char c (x # xs) =
     (if x = c then Some 0 else map_option Suc (find_char c xs))"

definition createRequest :: "(string \<Rightarrow> url_parts) \<Rightarrow> string \<Rightarrow> js_error + RequestFunction" where
  "createRequest url_parse baseUrl =
     (let baseUrlParts = url_parse baseUrl in
      case protocol baseUrlParts of
        None \<Rightarrow> Inl (new_Error (''Invalid URL (no protocol): '' @ baseUrl))
      | Some proto \<Rightarrow>
          if proto = [] then Inl (new_Error (''Invalid URL (no protocol): '' @ baseUrl))
          else if starts_with (proto @ ''//unix:'') baseUrl then
            (case pathname baseUrlParts of
               None \<Rightarrow> Inl (new_Error (''Unix socket URL must be in the format http://unix:/socket/path, http+unix:///socket/path or unix:///socket/path not '' @ baseUrl))
             | Some p \<Rightarrow>
                 if p = [] then Inl (new_Error (''Unix socket URL must be in the format http://unix:/socket/path, http+unix:///socket/path or unix:///socket/path not '' @ baseUrl))
                 else
                   (let socketPath = (case find_char CHR '':'' p of None \<Rightarrow> p | Some i \<Rightarrow> take i p) in
                    if socketPath \<noteq> [] \<and> filter (\<lambda>c. c \<noteq> CHR ''/'') socketPath = []
                    then Inl (new_Error (''Invalid URL (empty unix socket path): '' @ baseUrl))
                    else Inr (RequestFunction baseUrl)))
          else Inr (RequestFunction baseUrl))"

fun createRequests :: "(string \<Rightarrow> url_parts) \<Rightarrow> string list \<Rightarrow> js_error + RequestFunction list" where
  \<comment> \<open>\<open>newUrls.map((url) => createRequest(url, ...))\<close>: the first throw ends the map.\<close>
  "createRequests url_parse [] = Inr []"
| "createRequests url_parse (u # us) =
     (case createRequest url_parse u of
        Inl e \<Rightarrow> Inl e
      | Inr f \<Rightarrow>
          (case createRequests url_parse us of Inl e \<Rightarrow> Inl e | Inr fs \<Rightarrow> Inr (f # fs)))"

section \<open>Tasks and the connection\<close>

datatype LoadBalancingStrategy = NONE | ONE_RANDOM | ROUND_ROBIN

type_synonym headers = "(string \<times> string) list"

record request_options =
  opt_url :: string
  opt_headers :: headers
  opt_timeout :: nat
  opt_method :: string
  opt_expectBinary :: bool
  opt_body :: "string option"

text \<open>
  A task's \<open>resolve\<close> and \<open>reject\<close> closures belong to one promise; the task carries the
  number of that promise, and a call of either closure is logged under it.
\<close>

record task =
  promise :: nat
  retries :: nat
  host :: "jsnum option"
  allowDirtyRead :: bool
  options :: request_options
  stack :: "string option"

record Connection =
  activeTasks :: int
  maxTasks :: int
  queue :: "task list"
  hosts :: "RequestFunction list"
  urls :: "string list"
  activeHost :: jsnum
  activeDirtyHost :: jsnum
  loadBalancingStrategy :: LoadBalancingStrategy
  useFailOver :: bool
  precaptureStackTraces :: bool
  shouldRetry :: bool
  maxRetries :: nat

definition addToHostList ::
  "(string \<Rightarrow> url_parts) \<Rightarrow> string list \<Rightarrow> 'a Connection_scheme \<Rightarrow>
     (js_error + int list) \<times> 'a Connection_scheme" where
  \<comment> \<open>The result is paired with the connection as the call leaves it: a throw of
      \<open>createRequest\<close> comes after \<open>this._urls.push\<close> and before \<open>this._hosts.push\<close>.\<close>
  "addToHostList url_parse us c =
     (let cleanUrls = map normalizeUrl us;
          newUrls = filter (\<lambda>url. indexOf (urls c) url = -1) cleanUrls;
          c1 = c\<lparr>urls := urls c @ newUrls\<rparr>
      in case createRequests url_parse newUrls of
           Inl e \<Rightarrow> (Inl e, c1)
         | Inr fs \<Rightarrow>
             (let c2 = c1\<lparr>hosts := hosts c1 @ fs\<rparr>
              in (Inr (map (indexOf (urls c2)) cleanUrls), c2)))"

section \<open>The constructor\<close>

datatype url_config = OneUrl string | ManyUrls "string list"

datatype maxRetries_config = RetriesOff | Retries nat

record Config =
  cfg_url :: "url_config option"
  cfg_maxSockets :: "nat option"
  cfg_keepAlive :: "bool option"
  cfg_loadBalancingStrategy :: "LoadBalancingStrategy option"
  cfg_maxRetries :: "maxRetries_config option"
  cfg_precaptureStackTraces :: bool

definition config_urls :: "Config \<Rightarrow> string list" where
  \<comment> \<open>An empty string is falsy and gives the default; an empty array is truthy.\<close>
  "config_urls config =
     (case cfg_url config of
        None \<Rightarrow> [''http://localhost:8529'']
      | Some (OneUrl u) \<Rightarrow> (if u = [] then [''http://localhost:8529''] else [u])
      | Some (ManyUrls us) \<Rightarrow> us)"

definition new_Connection ::
  "(string \<Rightarrow> url_parts) \<Rightarrow> rat \<times> rat \<Rightarrow> Config \<Rightarrow> js_error + Connection" where
  \<comment> \<open>The Node defaults of \<open>agentOptions\<close> are \<open>maxSockets: 3, keepAlive: true\<close>. The pair
      of rationals stands for the two values of \<open>Math.random()\<close> that strategy
      \<open>ONE_RANDOM\<close> draws. Authentication and default headers are not modelled.\<close>
  "new_Connection url_parse rnd config =
     (let maxSockets = (case cfg_maxSockets config of None \<Rightarrow> 3 | Some n \<Rightarrow> n);
          keepAlive = (case cfg_keepAlive config of None \<Rightarrow> True | Some b \<Rightarrow> b);
          strategy = (case cfg_loadBalancingStrategy config of None \<Rightarrow> NONE | Some s \<Rightarrow> s);
          c0 = \<lparr>activeTasks = 0,
                maxTasks = (if keepAlive then int maxSockets * 2 else int maxSockets),
                queue = [], hosts = [], urls = [],
                activeHost = Num 0, activeDirtyHost = Num 0,
                loadBalancingStrategy = strategy,
                useFailOver = (strategy \<noteq> ROUND_ROBIN),
                precaptureStackTraces = cfg_precaptureStackTraces config,
                shouldRetry = (cfg_maxRetries config \<noteq> Some RetriesOff),
                maxRetries = (case cfg_maxRetries config of Some (Retries n) \<Rightarrow> n | _ \<Rightarrow> 0)\<rparr>
      in case addToHostList url_parse (config_urls config) c0 of
           (Inl e, c1) \<Rightarrow> Inl e
         | (Inr indices, c1) \<Rightarrow>
             if strategy = ONE_RANDOM then
               Inr (c1\<lparr>activeHost := Num \<lfloor>fst rnd * of_nat (length (hosts c1))\<rfloor>,
                       activeDirtyHost := Num \<lfloor>snd rnd * of_nat (length (hosts c1))\<rfloor>\<rparr>)
             else Inr (c1\<lparr>activeHost := Num 0, activeDirtyHost := Num 0\<rparr>))"

section \<open>Responses and the wrapper of \<open>resolve\<close>\<close>

text \<open>
  \<open>task.resolve\<close> is the wrapper that \<open>request\<close> builds (lines 342 to 380): it
  decodes the body of the response and settles the promise, or throws. \<open>JSON.parse\<close> is
  a parameter (\<open>None\<close> when it throws); an object it returns is an association list read
  with \<open>map_of\<close>. The response body that a transport delivers is a Buffer. The optional
  \<open>transform\<close> is a closure of the caller, which returns a value or throws.
\<close>

record response =
  statusCode :: "nat option"
  res_headers :: headers
  res_body :: string
  arangojsHostId :: "jsnum option"

datatype json =
  JNull | JBool bool | JNumber int | JString string | JArray "json list"
  | JObject "(string \<times> json) list"

datatype body_value = Undefined | Buffer string | Text string | Parsed json

record reply =
  reply_statusCode :: "nat option"
  reply_headers :: headers
  reply_body :: body_value
  reply_hostId :: "jsnum option"

datatype rejection =
    TransportError js_error
  | JsonSyntaxError response
  | ArangoError "json option" "json option" "json option" reply
  | HttpError nat reply

datatype 'a settlement = Resolved "'a + reply" | Rejected rejection

definition word_char :: "char \<Rightarrow> bool" where
  \<comment> \<open>The class \<open>\w\<close>: letters, digits and the underscore.\<close>
  "word_char c =
     (let n = (of_char c :: nat) in
      (97 \<le> n \<and> n \<le> 122) \<or> (65 \<le> n \<and> n \<le> 90) \<or> (48 \<le> n \<and> n \<le> 57) \<or> n = 95)"

definition token_at :: "string \<Rightarrow> string \<Rightarrow> bool" where
  \<comment> \<open>The token, then \<open>(\W|$)\<close>.\<close>
  "token_at tok s =
     (starts_with tok s \<and>
      (case drop (length tok) s of [] \<Rightarrow> True | c # _ \<Rightarrow> \<not> word_char c))"

fun MIME_JSON :: "string \<Rightarrow> bool" where
  \<comment> \<open>\<open>contentType.match(/\/(json|javascript)(\W|$)/)\<close> finds a match.\<close>
  "MIME_JSON [] = False"
| "MIME_JSON (c # cs) =
     (token_at ''/json'' (c # cs) \<or> token_at ''/javascript'' (c # cs) \<or> MIME_JSON cs)"

definition hasOwnProperty :: "body_value \<Rightarrow> string \<Rightarrow> js_error + bool" where
  \<comment> \<open>\<open>body.hasOwnProperty(key)\<close> for the keys of the error envelope. The method is
      looked up on the value itself: an object decoded from JSON that has a key
      \<open>hasOwnProperty\<close> of its own holds a JSON value there, never a function, and the
      call throws a TypeError. Strings, buffers, arrays and primitives inherit the method
      and own none of the envelope's keys.\<close>
  "hasOwnProperty b key =
     (case b of
        Parsed (JObject kvs) \<Rightarrow>
          if map_of kvs ''hasOwnProperty'' \<noteq> None
          then Inl (new_TypeError ''body.hasOwnProperty is not a function'')
          else Inr (map_of kvs key \<noteq> None)
      | _ \<Rightarrow> Inr False)"

definition get_prop :: "body_value \<Rightarrow> string \<Rightarrow> json option" where
  "get_prop b key = (case b of Parsed (JObject kvs) \<Rightarrow> map_of kvs key | _ \<Rightarrow> None)"

fun truthy :: "body_value \<Rightarrow> bool" where
  "truthy Undefined = False"
| "truthy (Buffer b) = True"
| "truthy (Text s) = (s \<noteq> [])"
| "truthy (Parsed JNull) = False"
| "truthy (Parsed (JBool b)) = b"
| "truthy (Parsed (JNumber n)) = (n \<noteq> 0)"
| "truthy (Parsed (JString s)) = (s \<noteq> [])"
| "truthy (Parsed (JArray xs)) = True"
| "truthy (Parsed (JObject kvs)) = True"

fun js_and :: "js_error + bool \<Rightarrow> js_error + bool \<Rightarrow> js_error + bool" where
  \<comment> \<open>\<open>a && b\<close> as a condition, where either operand may throw: the second operand
      counts only when the first is true.\<close>
  "js_and (Inl e) b = Inl e"
| "js_and (Inr False) b = Inr False"
| "js_and (Inr True) b = b"

definition isArangoErrorResponse :: "body_value \<Rightarrow> js_error + bool" where
  "isArangoErrorResponse body =
     js_and (Inr (truthy body))
       (js_and (hasOwnProperty body ''error'')
          (js_and (hasOwnProperty body ''code'')
             (js_and (hasOwnProperty body ''errorMessage'')
                (hasOwnProperty body ''errorNum''))))"

definition with_body :: "response \<Rightarrow> body_value \<Rightarrow> reply" where
  "with_body res b =
     \<lparr>reply_statusCode = statusCode res, reply_headers = res_headers res, reply_body = b,
      reply_hostId = arangojsHostId res\<rparr>"

definition new_ArangoError :: "reply \<Rightarrow> rejection" where
  \<comment> \<open>message, errorNum, code, response\<close>
  "new_ArangoError r =
     ArangoError (get_prop (reply_body r) ''errorMessage'') (get_prop (reply_body r) ''errorNum'')
       (get_prop (reply_body r) ''code'') r"

definition new_HttpError :: "reply \<Rightarrow> rejection" where
  \<comment> \<open>\<open>this.code = response.statusCode || 500\<close>; the message table is left out.\<close>
  "new_HttpError r =
     HttpError (case reply_statusCode r of None \<Rightarrow> 500 | Some n \<Rightarrow> if n = 0 then 500 else n) r"

definition parse_body ::
  "(string \<Rightarrow> json option) \<Rightarrow> bool \<Rightarrow> response \<Rightarrow> body_value option" where
  \<comment> \<open>Lines 343 to 366: \<open>parsedBody\<close>, or \<open>None\<close> where the wrapper rejects with the
      error of \<open>JSON.parse\<close> and returns.\<close>
  "parse_body JSON_parse expectBinary res =
     (if res_body res \<noteq> [] \<and>
         (case map_of (res_headers res) ''content-type'' of
            None \<Rightarrow> False
          | Some contentType \<Rightarrow> contentType \<noteq> [] \<and> MIME_JSON contentType)
      then
        (case JSON_parse (res_body res) of
           Some v \<Rightarrow> Some (Parsed v)
         | None \<Rightarrow> if \<not> expectBinary then None else Some (Buffer (res_body res)))
      else if \<not> expectBinary then Some (Text (res_body res))
      else Some (Buffer (res_body res)))"

definition task_resolve ::
  "(string \<Rightarrow> json option) \<Rightarrow> bool \<Rightarrow> (reply \<Rightarrow> js_error + 'a) option \<Rightarrow> response \<Rightarrow>
     js_error + 'a settlement" where
  \<comment> \<open>The wrapper, lines 342 to 380: how it settles the promise (\<open>Inr\<close>), or what it
      throws (\<open>Inl\<close>), in which case neither \<open>resolve\<close> nor \<open>reject\<close> is called.\<close>
  "task_resolve JSON_parse expectBinary transform res =
     (case parse_body JSON_parse expectBinary res of
        None \<Rightarrow> Inr (Rejected (JsonSyntaxError res))
      | Some parsedBody \<Rightarrow>
          (case isArangoErrorResponse parsedBody of
             Inl e \<Rightarrow> Inl e
           | Inr True \<Rightarrow> Inr (Rejected (new_ArangoError (with_body res parsedBody)))
           | Inr False \<Rightarrow>
               if (case statusCode res of None \<Rightarrow> False | Some n \<Rightarrow> n \<ge> 400) then
                 Inr (Rejected (new_HttpError (with_body res parsedBody)))
               else
                 (let res1 = (if \<not> expectBinary then with_body res parsedBody
                              else with_body res (Buffer (res_body res)))
                  in case transform of
                       None \<Rightarrow> Inr (Resolved (Inr res1))
                     | Some f \<Rightarrow>
                         (case f res1 of
                            Inl e \<Rightarrow> Inl e
                          | Inr v \<Rightarrow> Inr (Resolved (Inl v))))))"

section \<open>The scheduler\<close>

datatype outcome = Failure js_error | Success response

datatype task_call = TaskResolve response | TaskReject js_error

text \<open>
  The world is the connection together with what lies outside it: the completion callbacks
  that transports hold and have not invoked yet (each closure keeps its task and the host
  it was sent to), the history of transport invocations (\<open>sent\<close>, oldest first), the
  calls of \<open>task.resolve\<close> and \<open>task.reject\<close> made so far, and the number of
  promises created. The transforms are closures and stay outside the world: the
  parameter \<open>transform_of\<close> gives, for the number of a promise, the transform that
  \<open>request\<close> was called with when it created that promise.
\<close>

record world = Connection +
  pending :: "(task \<times> jsnum) list"
  sent :: "(task \<times> jsnum) list"
  calls :: "(nat \<times> task_call) list"
  nextPromise :: nat

definition boot :: "Connection \<Rightarrow> world" where
  "boot c =
     \<lparr>activeTasks = activeTasks c, maxTasks = maxTasks c, queue = queue c, hosts = hosts c,
      urls = urls c, activeHost = activeHost c, activeDirtyHost = activeDirtyHost c,
      loadBalancingStrategy = loadBalancingStrategy c, useFailOver = useFailOver c,
      precaptureStackTraces = precaptureStackTraces c, shouldRetry = shouldRetry c,
      maxRetries = maxRetries c, pending = [], sent = [], calls = [], nextPromise = 0\<rparr>"

definition select_host :: "task \<Rightarrow> 'a Connection_scheme \<Rightarrow> jsnum \<times> task \<times> 'a Connection_scheme" where
  \<comment> \<open>\<open>_runQueue\<close>, lines 139 to 150: the host of the dispatch, the task (its headers may
      be marked) and the connection with its cursors moved.\<close>
  "select_host t c =
     (case host t of
        Some h \<Rightarrow> (h, t, c)
      | None \<Rightarrow>
          if allowDirtyRead t then
            (activeDirtyHost c,
             t\<lparr>options := (options t)\<lparr>opt_headers :=
                  AList.update ''x-arango-allow-dirty-read'' ''true'' (opt_headers (options t))\<rparr>\<rparr>,
             c\<lparr>activeDirtyHost := next_index (activeDirtyHost c) (length (hosts c))\<rparr>)
          else if loadBalancingStrategy c = ROUND_ROBIN then
            (activeHost c, t, c\<lparr>activeHost := next_index (activeHost c) (length (hosts c))\<rparr>)
          else (activeHost c, t, c))"

definition host_at :: "RequestFunction list \<Rightarrow> jsnum \<Rightarrow> RequestFunction option" where
  \<comment> \<open>\<open>this._hosts[host]\<close>: \<open>None\<close> is \<open>undefined\<close>, and calling it throws a TypeError.\<close>
  "host_at hs h =
     (case h of
        Num i \<Rightarrow> if 0 \<le> i \<and> i < int (length hs) then Some (hs ! nat i) else None
      | NaN \<Rightarrow> None)"

definition retry_budget :: "'a Connection_scheme \<Rightarrow> int" where
  \<comment> \<open>\<open>this._maxRetries || this._hosts.length - 1\<close>\<close>
  "retry_budget c =
     (if maxRetries c \<noteq> 0 then int (maxRetries c) else int (length (hosts c)) - 1)"

definition is_ECONNREFUSED :: "js_error \<Rightarrow> bool" where
  "is_ECONNREFUSED err =
     (isSystemError err \<and> err_syscall err = Some ''connect'' \<and>
      err_code err = Some ''ECONNREFUSED'')"

definition with_task_stack :: "task \<Rightarrow> js_error \<Rightarrow> js_error" where
  \<comment> \<open>\<open>if (task.stack) err.stack += task.stack\<close>\<close>
  "with_task_stack t err =
     (case stack t of
        None \<Rightarrow> err
      | Some s \<Rightarrow> if s = [] then err else err\<lparr>err_stack := err_stack err @ s\<rparr>)"

definition failover :: "task \<Rightarrow> jsnum \<Rightarrow> 'a Connection_scheme \<Rightarrow> 'a Connection_scheme" where
  \<comment> \<open>The completion callback on an error, lines 155 to 160.\<close>
  "failover t h c =
     (if \<not> allowDirtyRead t \<and> length (hosts c) > 1 \<and> strict_eq (activeHost c) h \<and>
         useFailOver c
      then c\<lparr>activeHost := next_index (activeHost c) (length (hosts c))\<rparr>
      else c)"

definition on_error :: "task \<Rightarrow> jsnum \<Rightarrow> js_error \<Rightarrow> world \<Rightarrow> world" where
  \<comment> \<open>The completion callback on an error, lines 155 to 175.\<close>
  "on_error t h err w =
     (let w1 = failover t h w in
      if falsy_host (host t) \<and> shouldRetry w1 \<and> int (retries t) < retry_budget w1 \<and>
         is_ECONNREFUSED err
      then w1\<lparr>queue := queue w1 @ [t\<lparr>retries := retries t + 1\<rparr>]\<rparr>
      else w1\<lparr>calls := calls w1 @ [(promise t, TaskReject (with_task_stack t err))]\<rparr>)"

definition leader_endpoint :: "response \<Rightarrow> string option" where
  \<comment> \<open>\<open>response.headers["x-arango-endpoint"]\<close> when it is truthy.\<close>
  "leader_endpoint r =
     (case map_of (res_headers r) ''x-arango-endpoint'' of
        None \<Rightarrow> None
      | Some u \<Rightarrow> if u = [] then None else Some u)"

definition on_response ::
  "(string \<Rightarrow> url_parts) \<Rightarrow> (string \<Rightarrow> json option) \<Rightarrow>
     (nat \<Rightarrow> (reply \<Rightarrow> js_error + 'a) option) \<Rightarrow> task \<Rightarrow> jsnum \<Rightarrow> response \<Rightarrow> world \<Rightarrow>
     js_error \<times> world + world" where
  \<comment> \<open>The completion callback on a response, lines 178 to 192. Nothing here is inside a
      \<open>try\<close>: a throw of \<open>addToHostList\<close> (line 182) or of \<open>task.resolve\<close> (line
      191) leaves the callback at once, and the result is the error with the world as the
      throw leaves it (\<open>Inl\<close>). The call of \<open>task.resolve\<close> is logged either way. The
      result of \<open>addToHostList\<close> on one URL has one index, so the branch for the empty
      list is never taken.\<close>
  "on_response url_parse JSON_parse transform_of t h r w =
     (case (if statusCode r = Some 503 then leader_endpoint r else None) of
        Some url \<Rightarrow>
          (case addToHostList url_parse [url] w of
             (Inl e, w1) \<Rightarrow> Inl (e, w1)
           | (Inr [], w1) \<Rightarrow> Inr w1
           | (Inr (index # _), w1) \<Rightarrow>
               (let t1 = t\<lparr>host := Some (Num index)\<rparr>;
                    w2 = (if strict_eq (activeHost w1) h then w1\<lparr>activeHost := Num index\<rparr>
                          else w1)
                in Inr (w2\<lparr>queue := queue w2 @ [t1]\<rparr>)))
      | None \<Rightarrow>
          (let r1 = r\<lparr>arangojsHostId := Some h\<rparr>;
               w1 = w\<lparr>calls := calls w @ [(promise t, TaskResolve r1)]\<rparr>
           in case task_resolve JSON_parse (opt_expectBinary (options t))
                     (transform_of (promise t)) r1 of
                Inl e \<Rightarrow> Inl (e, w1)
              | Inr s \<Rightarrow> Inr w1))"

function runQueue :: "world \<Rightarrow> world" where
  \<comment> \<open>\<open>_runQueue\<close>. A transport that exists is called and keeps the callback
      (\<open>pending\<close>). Where \<open>this._hosts[host]\<close> is \<open>undefined\<close> the call throws, and the
      \<open>catch\<close> runs \<open>callback(e)\<close> on the spot: the counter goes down again, the error
      path runs, and the callback's last statement is \<open>this._runQueue()\<close>.\<close>
  "runQueue w =
     (case queue w of
        [] \<Rightarrow> w
      | t # rest \<Rightarrow>
          if activeTasks w \<ge> maxTasks w then w
          else
            (let (h, t1, w1) = select_host t (w\<lparr>queue := rest\<rparr>);
                 w2 = w1\<lparr>activeTasks := activeTasks w1 + 1\<rparr>
             in case host_at (hosts w2) h of
                  Some f \<Rightarrow> w2\<lparr>pending := pending w2 @ [(t1, h)], sent := sent w2 @ [(t1, h)]\<rparr>
                | None \<Rightarrow>
                    runQueue
                      (on_error t1 h (new_TypeError ''this._hosts[host] is not a function'')
                         (w2\<lparr>activeTasks := activeTasks w2 - 1\<rparr>))))"
  by pat_completeness auto

termination runQueue
proof (relation "measure (\<lambda>w. length (queue w))")
  show "wf (measure (\<lambda>w. length (queue w)))" by simp
next
  fix w :: world and t rest x h y t1 w1 w2
  assume q: "queue w = t # rest"
    and x: "x = select_host t (w\<lparr>queue := rest\<rparr>)"
    and xy: "(h, y) = x" and y: "(t1, w1) = y"
    and w2: "w2 = w1\<lparr>activeTasks := activeTasks w1 + 1\<rparr>"
  from x xy y have "select_host t (w\<lparr>queue := rest\<rparr>) = (h, t1, w1)" by simp
  then have "queue w1 = rest"
    by (auto simp: select_host_def split: option.splits if_splits)
  moreover have "queue (on_error t1 h (new_TypeError m) v) = queue v" for m v
    by (simp add: on_error_def failover_def is_ECONNREFUSED_def isSystemError_def
        new_TypeError_def)
  ultimately show "(on_error t1 h (new_TypeError ''this._hosts[host] is not a function'')
               (w2\<lparr>activeTasks := activeTasks w2 - 1\<rparr>), w)
             \<in> measure (\<lambda>w. length (queue w))"
    using q w2 by simp
qed

definition callback ::
  "(string \<Rightarrow> url_parts) \<Rightarrow> (string \<Rightarrow> json option) \<Rightarrow>
     (nat \<Rightarrow> (reply \<Rightarrow> js_error + 'a) option) \<Rightarrow> task \<Rightarrow> jsnum \<Rightarrow> outcome \<Rightarrow> world \<Rightarrow>
     js_error \<times> world + world" where
  \<comment> \<open>The completion callback of a dispatch of task \<open>t\<close> to host \<open>h\<close>, lines 152 to 195.
      The counter goes down first (line 153). \<open>this._runQueue()\<close> is the last statement
      (line 194): it is reached when the error path or the response path returns, and not
      when the response path throws.\<close>
  "callback url_parse JSON_parse transform_of t h out w =
     (let w1 = w\<lparr>activeTasks := activeTasks w - 1\<rparr> in
      case out of
        Failure err \<Rightarrow> Inr (runQueue (on_error t h err w1))
      | Success r \<Rightarrow>
          (case on_response url_parse JSON_parse transform_of t h r w1 of
             Inl x \<Rightarrow> Inl x
           | Inr w2 \<Rightarrow> Inr (runQueue w2)))"

record request_params =
  req_host :: "jsnum option"
  req_allowDirtyRead :: bool
  req_options :: request_options
  req_callsite :: "string option"

definition request :: "request_params \<Rightarrow> world \<Rightarrow> world" where
  \<comment> \<open>\<open>request\<close>, lines 329 to 395: build the task, push it, run the queue. The
      marshalling of body and headers into \<open>options\<close> (lines 308 to 328) is the caller's
      value \<open>req_options\<close>; \<open>req_callsite\<close> is the stack trace the runtime captures.\<close>
  "request p w =
     (let t = \<lparr>promise = nextPromise w, retries = 0, host = req_host p,
               allowDirtyRead = req_allowDirtyRead p, options = req_options p,
               stack = (if precaptureStackTraces w
                        then map_option (\<lambda>s. CHR 0x0A # s) (req_callsite p) else None)\<rparr>
      in runQueue (w\<lparr>queue := queue w @ [t], nextPromise := nextPromise w + 1\<rparr>))"

definition settle ::
  "(string \<Rightarrow> json option) \<Rightarrow> bool \<Rightarrow> (reply \<Rightarrow> js_error + 'a) option \<Rightarrow> task_call \<Rightarrow>
     js_error + 'a settlement" where
  \<comment> \<open>What a call of one of the task's two closures does to the caller's promise;
      \<open>task.reject\<close> is the promise's own \<open>reject\<close>.\<close>
  "settle JSON_parse expectBinary transform c =
     (case c of
        TaskResolve res \<Rightarrow> task_resolve JSON_parse expectBinary transform res
      | TaskReject err \<Rightarrow> Inr (Rejected (TransportError err)))"

section \<open>Events\<close>

text \<open>
  Two things happen to a connection: a caller calls \<open>request\<close>, or a transport invokes
  one of the callbacks it holds, with an error or with a response. A callback is invoked
  once and leaves \<open>pending\<close> when it is; an event that names no pending callback cannot
  happen (\<open>None\<close>). A step that throws (\<open>Inl\<close>) ends the run, with the error and the
  world at the throw; \<open>world_of\<close> is the world that a step or a run leaves, thrown or not.
\<close>

datatype event = Request request_params | Completion nat outcome

definition step ::
  "(string \<Rightarrow> url_parts) \<Rightarrow> (string \<Rightarrow> json option) \<Rightarrow>
     (nat \<Rightarrow> (reply \<Rightarrow> js_error + 'a) option) \<Rightarrow> event \<Rightarrow> world \<Rightarrow>
     (js_error \<times> world + world) option" where
  "step url_parse JSON_parse transform_of ev w =
     (case ev of
        Request p \<Rightarrow> Some (Inr (request p w))
      | Completion i out \<Rightarrow>
          if i < length (pending w) then
            (case pending w ! i of
               (t, h) \<Rightarrow>
                 Some (callback url_parse JSON_parse transform_of t h out
                         (w\<lparr>pending := take i (pending w) @ drop (Suc i) (pending w)\<rparr>)))
          else None)"

fun run ::
  "(string \<Rightarrow> url_parts) \<Rightarrow> (string \<Rightarrow> json option) \<Rightarrow>
     (nat \<Rightarrow> (reply \<Rightarrow> js_error + 'a) option) \<Rightarrow> event list \<Rightarrow> world \<Rightarrow>
     (js_error \<times> world + world) option" where
  "run url_parse JSON_parse transform_of [] w = Some (Inr w)"
| "run url_parse JSON_parse transform_of (e # es) w =
     (case step url_parse JSON_parse transform_of e w of
        None \<Rightarrow> None
      | Some (Inl x) \<Rightarrow> Some (Inl x)
      | Some (Inr w1) \<Rightarrow> run url_parse JSON_parse transform_of es w1)"

fun world_of :: "js_error \<times> world + world \<Rightarrow> world" where
  "world_of (Inl (e, w)) = w"
| "world_of (Inr w) = w"

section \<open>Invariants of the scheduler\<close>

text \<open>
  \<open>slots_ok\<close> holds between events: the counter is the number of callbacks that
  transports hold, it is within the bound, and a task waits only while the bound is
  reached. \<open>slots_open\<close> is what holds when \<open>_runQueue\<close> is entered: after a push or
  after a callback has given its slot back.
\<close>

definition slots_ok :: "world \<Rightarrow> bool" where
  "slots_ok w =
     (activeTasks w = int (length (pending w)) \<and> activeTasks w \<le> maxTasks w \<and>
      (queue w = [] \<or> activeTasks w = maxTasks w))"

definition slots_bounded :: "world \<Rightarrow> bool" where
  \<comment> \<open>The part of \<open>slots_ok\<close> that a throwing callback keeps.\<close>
  "slots_bounded w =
     (activeTasks w = int (length (pending w)) \<and> activeTasks w \<le> maxTasks w)"

definition slots_open :: "world \<Rightarrow> bool" where
  "slots_open w =
     (activeTasks w = int (length (pending w)) \<and> activeTasks w \<le> maxTasks w \<and>
      (length (queue w) \<le> 1 \<or> maxTasks w \<le> activeTasks w + 1))"

definition settings ::
  "'a Connection_scheme \<Rightarrow> int \<times> LoadBalancingStrategy \<times> bool \<times> bool \<times> bool \<times> nat" where
  \<comment> \<open>The fields that are assigned in the constructor only.\<close>
  "settings c =
     (maxTasks c, loadBalancingStrategy c, useFailOver c, precaptureStackTraces c,
      shouldRetry c, maxRetries c)"

text \<open>
  A leader redirect is what the completion callback tests for at lines 179 and 180.
  \<open>rr_log\<close> lists, oldest first, the hosts of the transport invocations made for tasks
  that are neither pinned nor dirty reads. \<open>round_robin_from\<close> relates the active-host
  cursor of a \<open>ROUND_ROBIN\<close> connection with \<open>N\<close> hosts to that history, from a
  moment at which the cursor was \<open>a\<close> and the history was \<open>base\<close>. \<open>cursor_ok\<close>
  says that the cursor of a \<open>ROUND_ROBIN\<close> connection is an index into the pool.
\<close>

definition is_leader_redirect :: "response \<Rightarrow> bool" where
  "is_leader_redirect r = (statusCode r = Some 503 \<and> leader_endpoint r \<noteq> None)"

fun redirect_event :: "event \<Rightarrow> bool" where
  "redirect_event (Completion i (Success r)) = is_leader_redirect r"
| "redirect_event (Completion i (Failure err)) = False"
| "redirect_event (Request p) = False"




text \<open>
  \<open>ids\<close> lists the promises of the tasks in the queue, of the tasks in flight and of
  the calls made. \<open>fuel\<close> bounds what is left to do without a leader redirect: every
  unsettled task counts one for its settlement and one for each retry it may still get.
  A plain completion is a callback invoked with an error or with a response that is not a
  leader redirect.
\<close>

definition ids :: "world \<Rightarrow> nat list" where
  "ids w =
     map promise (queue w) @ map (\<lambda>(t, h). promise t) (pending w) @ map fst (calls w)"

definition task_fuel :: "int \<Rightarrow> task \<Rightarrow> nat" where
  "task_fuel budget t = Suc (nat (budget - int (retries t)))"

definition fuel :: "world \<Rightarrow> nat" where
  "fuel w = sum_list (map (task_fuel (retry_budget w)) (queue w @ map fst (pending w)))"

fun plain_completion :: "event \<Rightarrow> bool" where
  "plain_completion (Completion i (Success r)) = (\<not> is_leader_redirect r)"
| "plain_completion (Completion i (Failure err)) = True"
| "plain_completion (Request p) = False"

fun is_request :: "event \<Rightarrow> bool" where
  "is_request (Request p) = True"
| "is_request (Completion i out) = False"

definition served :: "world \<Rightarrow> world \<Rightarrow> nat set" where
  \<comment> \<open>The promises of the tasks that were handed to a transport, or settled, on the way
      from the first world to the second (both histories only grow).\<close>
  "served w w' =
     (\<lambda>(t, h). promise t) ` set (drop (length (sent w)) (sent w')) \<union>
     fst ` set (drop (length (calls w)) (calls w'))"

definition popped_from :: "task list \<Rightarrow> world \<Rightarrow> nat \<Rightarrow> world \<Rightarrow> bool" where
  \<comment> \<open>The second world has the queue without its first \<open>m\<close> tasks, and what was added
      to the two histories since the first world accounts for each of them.\<close>
  "popped_from q w m x =
     (m \<le> length q \<and> queue x = drop m q \<and>
      (\<exists>s c. sent x = sent w @ s \<and> calls x = calls w @ c \<and>
             (\<forall>j<m. promise (q ! j) \<in> (\<lambda>(t, h). promise t) ` set s \<union> fst ` set c)))"

definition wrapper_error ::
  "(string \<Rightarrow> json option) \<Rightarrow> (nat \<Rightarrow> (reply \<Rightarrow> js_error + 'a) option) \<Rightarrow> task \<Rightarrow>
     jsnum \<Rightarrow> response \<Rightarrow> js_error option" where
  \<comment> \<open>The error that \<open>task.resolve\<close> throws, if it throws, when the callback of task
      \<open>t\<close> is invoked with the response \<open>r\<close> of host \<open>h\<close>.\<close>
  "wrapper_error JSON_parse transform_of t h r =
     (case task_resolve JSON_parse (opt_expectBinary (options t)) (transform_of (promise t))
             (r\<lparr>arangojsHostId := Some h\<rparr>) of
        Inl e \<Rightarrow> Some e
      | Inr s \<Rightarrow> None)"

definition calls_settled ::
  "(string \<Rightarrow> json option) \<Rightarrow> (nat \<Rightarrow> (reply \<Rightarrow> js_error + 'a) option) \<Rightarrow> world \<Rightarrow>
     bool" where
  \<comment> \<open>Every callback in flight belongs to a transport invocation of the history, and
      every call of \<open>task.resolve\<close> in the log is one whose wrapper returned, for a
      task that was sent under the number of that promise.\<close>
  "calls_settled JSON_parse transform_of w =
     (set (pending w) \<subseteq> set (sent w) \<and>
      (\<forall>(n, c) \<in> set (calls w).
         case c of
           TaskReject err \<Rightarrow> True
         | TaskResolve r \<Rightarrow>
             \<exists>(t, h) \<in> set (sent w). promise t = n \<and>
                \<not> isl (task_resolve JSON_parse (opt_expectBinary (options t))
                         (transform_of n) r)))"

text \<open>
  Two shapes of a decoded body. The first is the spec's error envelope: an object with
  the fields \<open>error\<close>, \<open>code\<close>, \<open>errorMessage\<close> and \<open>errorNum\<close>. The second is
  an object with a key \<open>hasOwnProperty\<close> of its own.
\<close>

definition envelope_shape :: "body_value \<Rightarrow> bool" where
  "envelope_shape b =
     (case b of
        Parsed (JObject kvs) \<Rightarrow>
          map_of kvs ''error'' \<noteq> None \<and> map_of kvs ''code'' \<noteq> None \<and>
          map_of kvs ''errorMessage'' \<noteq> None \<and> map_of kvs ''errorNum'' \<noteq> None
      | _ \<Rightarrow> False)"

definition shadows_hasOwnProperty :: "body_value \<Rightarrow> bool" where
  "shadows_hasOwnProperty b =
     (case b of Parsed (JObject kvs) \<Rightarrow> map_of kvs ''hasOwnProperty'' \<noteq> None | _ \<Rightarrow> False)"

section \<open>Sample values\<close>

text \<open>
  Concrete inputs for the examples below: a URL parser that reads the scheme of
  \<open>http:\<close> and \<open>https:\<close> URLs (as \<open>url.parse\<close> does on them), a request, and a
  connection to two hosts as the constructor builds it.
\<close>

definition sample_url_parse :: "string \<Rightarrow> url_parts" where
  "sample_url_parse u =
     \<lparr>protocol = (if starts_with ''http:'' u then Some ''http:''
                  else if starts_with ''https:'' u then Some ''https:'' else None),
      pathname = None\<rparr>"

definition sample_options :: request_options where
  "sample_options =
     \<lparr>opt_url = ''/_api/version'', opt_headers = [], opt_timeout = 0, opt_method = ''GET'',
      opt_expectBinary = False, opt_body = None\<rparr>"

definition sample_task :: task where
  "sample_task =
     \<lparr>promise = 0, retries = 0, host = None, allowDirtyRead = False,
      options = sample_options, stack = None\<rparr>"

definition dirty_task :: task where
  "dirty_task = sample_task\<lparr>allowDirtyRead := True\<rparr>"

definition two_hosts :: world where
  "two_hosts =
     \<lparr>activeTasks = 0, maxTasks = 6, queue = [],
      hosts = [RequestFunction ''http://a:8529'', RequestFunction ''http://b:8529''],
      urls = [''http://a:8529'', ''http://b:8529''],
      activeHost = Num 0, activeDirtyHost = Num 0, loadBalancingStrategy = NONE,
      useFailOver = True, precaptureStackTraces = False, shouldRetry = True, maxRetries = 0,
      pending = [], sent = [], calls = [], nextPromise = 0\<rparr>"

definition next_dirty_task :: task where
  "next_dirty_task = dirty_task\<lparr>promise := 1\<rparr>"

definition pinned_dirty_task :: task where
  "pinned_dirty_task = dirty_task\<lparr>host := Some (Num 0)\<rparr>"

definition dirty_request :: request_params where
  "dirty_request =
     \<lparr>req_host = None, req_allowDirtyRead = True, req_options = sample_options,
      req_callsite = None\<rparr>"

definition dirty_once :: world where
  "dirty_once =
     two_hosts
       \<lparr>activeTasks := 1, activeDirtyHost := Num 1,
        pending := [(dirty_task\<lparr>options := sample_options
                       \<lparr>opt_headers := [(''x-arango-allow-dirty-read'', ''true'')]\<rparr>\<rparr>, Num 0)],
        sent := [(dirty_task\<lparr>options := sample_options
                    \<lparr>opt_headers := [(''x-arango-allow-dirty-read'', ''true'')]\<rparr>\<rparr>, Num 0)],
        nextPromise := 1\<rparr>"

definition two_hosts_config :: Config where
  "two_hosts_config =
     \<lparr>cfg_url = Some (ManyUrls [''tcp://a:8529'', ''http://b:8529'']), cfg_maxSockets = None,
      cfg_keepAlive = None, cfg_loadBalancingStrategy = None, cfg_maxRetries = None,
      cfg_precaptureStackTraces = False\<rparr>"

definition pinned_task :: "int \<Rightarrow> task" where
  "pinned_task i = sample_task\<lparr>host := Some (Num i)\<rparr>"

definition sample_request :: request_params where
  "sample_request =
     \<lparr>req_host = None, req_allowDirtyRead = False, req_options = sample_options,
      req_callsite = None\<rparr>"

definition ECONNREFUSED :: js_error where
  "ECONNREFUSED =
     \<lparr>err_proto = ErrorProto, err_message = ''connect ECONNREFUSED 127.0.0.1:8529'',
      err_code = Some ''ECONNREFUSED'', err_errno = Some (-111), err_syscall = Some ''connect'',
      err_stack = []\<rparr>"

definition ETIMEDOUT :: js_error where
  "ETIMEDOUT =
     \<lparr>err_proto = ErrorProto, err_message = ''connect ETIMEDOUT 127.0.0.1:8529'',
      err_code = Some ''ETIMEDOUT'', err_errno = Some (-110), err_syscall = Some ''connect'',
      err_stack = []\<rparr>"

text \<open>
  A table that agrees with \<open>JSON.parse\<close> on its three texts; every other text used with
  it below is not JSON. Three transforms: none for any request, one that reads the status
  of the response, and one that throws on every response.
\<close>

definition quoted :: "string \<Rightarrow> string" where
  "quoted s = CHR 0x22 # s @ [CHR 0x22]"

definition envelope_text :: string where
  "envelope_text =
     ''{'' @ quoted ''error'' @ '':false,'' @ quoted ''code'' @ '':200,'' @
     quoted ''errorMessage'' @ '':'' @ quoted ''fine'' @ '','' @ quoted ''errorNum'' @ '':0}''"

definition envelope_value :: json where
  "envelope_value =
     JObject [(''error'', JBool False), (''code'', JNumber 200),
              (''errorMessage'', JString ''fine''), (''errorNum'', JNumber 0)]"

definition version_text :: string where
  "version_text = ''{'' @ quoted ''version'' @ '':'' @ quoted ''3.7.1'' @ ''}''"

definition version_value :: json where
  "version_value = JObject [(''version'', JString ''3.7.1'')]"

definition shadowed_text :: string where
  "shadowed_text =
     ''{'' @ quoted ''error'' @ '':true,'' @ quoted ''code'' @ '':404,'' @
     quoted ''errorMessage'' @ '':'' @ quoted ''gone'' @ '','' @ quoted ''errorNum'' @ '':1202,'' @
     quoted ''hasOwnProperty'' @ '':1}''"

definition shadowed_value :: json where
  "shadowed_value =
     JObject [(''error'', JBool True), (''code'', JNumber 404),
              (''errorMessage'', JString ''gone''), (''errorNum'', JNumber 1202),
              (''hasOwnProperty'', JNumber 1)]"

definition sample_JSON_parse :: "string \<Rightarrow> json option" where
  "sample_JSON_parse =
     map_of [(envelope_text, envelope_value), (version_text, version_value),
             (shadowed_text, shadowed_value)]"

definition no_transform :: "nat \<Rightarrow> (reply \<Rightarrow> js_error + unit) option" where
  "no_transform n = None"

definition status_transform :: "reply \<Rightarrow> js_error + nat option" where
  "status_transform res = Inr (reply_statusCode res)"

definition failing_transform :: "nat \<Rightarrow> (reply \<Rightarrow> js_error + unit) option" where
  "failing_transform n = Some (\<lambda>res. Inl (new_TypeError ''res.body.result is undefined''))"

definition json_response :: "nat \<Rightarrow> string \<Rightarrow> response" where
  "json_response status text =
     \<lparr>statusCode = Some status,
      res_headers = [(''content-type'', ''application/json; charset=utf-8'')],
      res_body = text, arangojsHostId = Some (Num 0)\<rparr>"

definition failed_over :: world where
  "failed_over =
     two_hosts\<lparr>activeHost := Num 1, sent := [(sample_task, Num 0)],
               calls := [(0, TaskReject ETIMEDOUT)], nextPromise := 1\<rparr>"

definition redirect_to :: "string \<Rightarrow> response" where
  "redirect_to u =
     \<lparr>statusCode = Some 503, res_headers = [(''x-arango-endpoint'', u)], res_body = [],
      arangojsHostId = None\<rparr>"

definition one_slot_config :: Config where
  "one_slot_config =
     \<lparr>cfg_url = Some (OneUrl ''tcp://a:8529''), cfg_maxSockets = Some 1,
      cfg_keepAlive = Some False, cfg_loadBalancingStrategy = None, cfg_maxRetries = None,
      cfg_precaptureStackTraces = False\<rparr>"

definition one_slot :: Connection where
  "one_slot =
     \<lparr>activeTasks = 0, maxTasks = 1, queue = [],
      hosts = [RequestFunction ''http://a:8529''], urls = [''http://a:8529''],
      activeHost = Num 0, activeDirtyHost = Num 0, loadBalancingStrategy = NONE,
      useFailOver = True, precaptureStackTraces = False, shouldRetry = True, maxRetries = 0\<rparr>"

definition busy :: world where
  \<open>busy =
     (boot one_slot)
       \<lparr>activeTasks := 1, queue := [sample_task\<lparr>promise := 1\<rparr>],
        pending := [(sample_task, Num 0)], sent := [(sample_task, Num 0)], nextPromise := 2\<rparr>\<close>

definition stalled :: "response \<Rightarrow> world" where
  "stalled r = busy\<lparr>activeTasks := 0, pending := [], calls := [(0, TaskResolve r)]\<rparr>"






definition loop_world :: "nat \<Rightarrow> world" where
  "loop_world n =
     (boot one_slot)
       \<lparr>activeTasks := 1, pending := [(pinned_task 0, Num 0)],
        sent := (sample_task, Num 0) # replicate n (pinned_task 0, Num 0), nextPromise := 1\<rparr>"

definition retry2_config :: Config where
  "retry2_config =
     \<lparr>cfg_url = Some (ManyUrls [''tcp://a:8529'', ''tcp://b:8529'']), cfg_maxSockets = None,
      cfg_keepAlive = None, cfg_loadBalancingStrategy = None, cfg_maxRetries = Some (Retries 2),
      cfg_precaptureStackTraces = False\<rparr>"

definition retry2_connection :: Connection where
  "retry2_connection =
     \<lparr>activeTasks = 0, maxTasks = 6, queue = [],
      hosts = [RequestFunction ''http://a:8529'', RequestFunction ''http://b:8529''],
      urls = [''http://a:8529'', ''http://b:8529''],
      activeHost = Num 0, activeDirtyHost = Num 0, loadBalancingStrategy = NONE,
      useFailOver = True, precaptureStackTraces = False, shouldRetry = True, maxRetries = 2\<rparr>"

definition retry2_started :: world where
  "retry2_started =
     (boot retry2_connection)
       \<lparr>activeTasks := 1, pending := [(sample_task, Num 0)], sent := [(sample_task, Num 0)],
        nextPromise := 1\<rparr>"

definition retry2_twice :: world where
  "retry2_twice =
     (boot retry2_connection)
       \<lparr>activeTasks := 1, pending := [(sample_task\<lparr>retries := 2\<rparr>, Num 0)],
        sent := [(sample_task, Num 0), (sample_task\<lparr>retries := 1\<rparr>, Num 1),
                 (sample_task\<lparr>retries := 2\<rparr>, Num 0)],
        nextPromise := 1\<rparr>"

definition retry2_done :: world where
  "retry2_done =
     (boot retry2_connection)
       \<lparr>activeHost := Num 1,
        sent := [(sample_task, Num 0), (sample_task\<lparr>retries := 1\<rparr>, Num 1),
                 (sample_task\<lparr>retries := 2\<rparr>, Num 0)],
        calls := [(0, TaskReject ECONNREFUSED)], nextPromise := 1\<rparr>"

section \<open>The dispatch step\<close>

declare runQueue.simps [simp del]

lemma runQueue_idle:
  "queue w = [] \<or> maxTasks w \<le> activeTasks w \<Longrightarrow> runQueue w = w"
  by (subst runQueue.simps) (auto split: list.splits)

lemma runQueue_dispatch:
  assumes "queue w = t # rest" and "activeTasks w < maxTasks w"
    and "select_host t (w\<lparr>queue := rest\<rparr>) = (h, t1, w1)"
    and "host_at (hosts w1) h = Some f"
  shows "runQueue w =
           w1\<lparr>activeTasks := activeTasks w1 + 1, pending := pending w1 @ [(t1, h)],
              sent := sent w1 @ [(t1, h)]\<rparr>"
  using assms by (subst runQueue.simps) simp

lemma runQueue_throw:
  assumes "queue w = t # rest" and "activeTasks w < maxTasks w"
    and "select_host t (w\<lparr>queue := rest\<rparr>) = (h, t1, w1)"
    and "host_at (hosts w1) h = None"
  shows "runQueue w =
           runQueue (on_error t1 h (new_TypeError ''this._hosts[host] is not a function'') w1)"
  using assms by (subst runQueue.simps) simp

lemma two_hosts_constructed:
  "map_sum id boot (new_Connection sample_url_parse (0, 0) two_hosts_config) = Inr two_hosts"
  by code_simp

lemma failed_over_reached:
  "run sample_url_parse sample_JSON_parse no_transform [Request sample_request, Completion 0 (Failure ETIMEDOUT)] two_hosts
     = Some (Inr failed_over)"
  by code_simp

section \<open>The error path\<close>

lemma next_index_moves: "1 < n \<Longrightarrow> next_index (Num a) n \<noteq> Num a"
proof -
  assume n: "1 < n"
  have "sgn (a + 1) * (\<bar>a + 1\<bar> mod int n) \<noteq> a"
  proof (cases "0 \<le> a")
    case True
    then have s: "sgn (a + 1) = 1" "\<bar>a + 1\<bar> = a + 1" by auto
    have lt: "(a + 1) mod int n < int n" using n by simp
    have "(a + 1) mod int n \<noteq> a"
    proof
      assume e: "(a + 1) mod int n = a"
      then have "a < int n" using lt by simp
      show False
      proof (cases "a + 1 < int n")
        case True
        then show False using e \<open>0 \<le> a\<close> by simp
      next
        case False
        with \<open>a < int n\<close> have "a + 1 = int n" by simp
        then have "(a + 1) mod int n = 0" by simp
        with e have "a = 0" by simp
        with \<open>a + 1 = int n\<close> n show False by simp
      qed
    qed
    then show ?thesis using s by simp
  next
    case False
    then have neg: "a < 0" by simp
    show ?thesis
    proof (cases "a = -1")
      case True
      then show ?thesis by simp
    next
      case False
      with neg have lt: "a + 1 < 0" by simp
      then have s: "sgn (a + 1) = -1" "\<bar>a + 1\<bar> = - a - 1" by auto
      have "(- a - 1) mod int n \<le> - a - 1" using lt n
        by (intro zmod_le_nonneg_dividend) simp
      then show ?thesis using s by simp
    qed
  qed
  then show ?thesis using n by (simp add: js_rem_def)
qed

lemma retry_iff:
  "(queue (on_error t h err w) = queue w @ [t\<lparr>retries := retries t + 1\<rparr>] \<and>
    calls (on_error t h err w) = calls w) =
   (falsy_host (host t) \<and> shouldRetry w \<and> int (retries t) < retry_budget w \<and>
    is_ECONNREFUSED err)"
  by (auto simp: on_error_def failover_def retry_budget_def Let_def)

lemma reject_iff:
  "(queue (on_error t h err w) = queue w \<and>
    calls (on_error t h err w) = calls w @ [(promise t, TaskReject (with_task_stack t err))]) =
   (\<not> (falsy_host (host t) \<and> shouldRetry w \<and> int (retries t) < retry_budget w \<and>
       is_ECONNREFUSED err))"
  by (auto simp: on_error_def failover_def retry_budget_def Let_def)

text \<open>
  Claim C1, at a task pinned to host 0. The task is pinned (\<open>host\<close> is \<open>0\<close>, and the
  dispatch sends it to host 0 without reading a cursor), retries are enabled, its retry
  count is below the budget and the error is a connection refusal: the error path puts
  it back in the queue with one more retry and calls neither \<open>resolve\<close> nor \<open>reject\<close>,
  because \<open>!task.host\<close> holds of \<open>0\<close>.
\<close>

theorem C1_task_pinned_to_host_0_is_retried:
  "host (pinned_task 0) = Some (Num 0) \<and>
   fst (select_host (pinned_task 0) two_hosts) = Num 0 \<and>
   shouldRetry two_hosts \<and> is_ECONNREFUSED ECONNREFUSED \<and>
   int (retries (pinned_task 0)) < retry_budget two_hosts \<and>
   queue (on_error (pinned_task 0) (Num 0) ECONNREFUSED two_hosts)
     = [(pinned_task 0)\<lparr>retries := 1\<rparr>] \<and>
   calls (on_error (pinned_task 0) (Num 0) ECONNREFUSED two_hosts) = []"
  by (simp add: pinned_task_def sample_task_def two_hosts_def select_host_def on_error_def
      failover_def js_rem_def is_ECONNREFUSED_def ECONNREFUSED_def isSystemError_def
      retry_budget_def)

text \<open>
  Claim C2, as stated, fails. A connection to two hosts under strategy \<open>NONE\<close> has
  failed over once: its active-host cursor is at host 1. A task pinned to host 1 that is
  not a dirty read is sent to host 1 and fails: the cursor moves on to host 0, although
  the task was pinned.
\<close>

theorem C2_pinned_task_fails_over:
  "run sample_url_parse sample_JSON_parse no_transform [Request sample_request, Completion 0 (Failure ETIMEDOUT)] two_hosts
     = Some (Inr failed_over) \<and>
   activeHost failed_over = Num 1 \<and> length (hosts failed_over) = 2 \<and>
   loadBalancingStrategy failed_over = NONE \<and>
   host (pinned_task 1) \<noteq> None \<and>
   fst (select_host (pinned_task 1) failed_over) = Num 1 \<and>
   activeHost (on_error (pinned_task 1) (Num 1) ETIMEDOUT failed_over) = Num 0"
  using failed_over_reached
  by (simp add: pinned_task_def sample_task_def two_hosts_def failed_over_def select_host_def
      on_error_def failover_def js_rem_def is_ECONNREFUSED_def ETIMEDOUT_def)

text \<open>
  Claim C2, amended: on a transport error the active-host cursor is advanced by one modulo
  the size of the pool if and only if the task is not a dirty read (\<open>allowDirtyRead\<close> is
  false), more than one host is known, the cursor still equals the host that served the
  failed dispatch, and the strategy is not \<open>ROUND_ROBIN\<close>; in every other case the error
  path leaves the cursor unchanged. Whether the task was pinned plays no part. The
  connection is one whose \<open>useFailOver\<close> flag is what the constructor sets.
\<close>

theorem C2_failover_cursor:
  assumes "useFailOver w = (loadBalancingStrategy w \<noteq> ROUND_ROBIN)"
  shows "activeHost (on_error t h err w) =
           (if \<not> allowDirtyRead t \<and> 1 < length (hosts w) \<and> strict_eq (activeHost w) h \<and>
               loadBalancingStrategy w \<noteq> ROUND_ROBIN
            then next_index (activeHost w) (length (hosts w)) else activeHost w) \<and>
         ((activeHost (on_error t h err w) \<noteq> activeHost w) =
            (\<not> allowDirtyRead t \<and> 1 < length (hosts w) \<and> strict_eq (activeHost w) h \<and>
             loadBalancingStrategy w \<noteq> ROUND_ROBIN))"
proof -
  have frame: "activeHost (on_error t h err w) = activeHost (failover t h w)"
    by (simp add: on_error_def Let_def)
  have v: "activeHost (failover t h w) =
           (if \<not> allowDirtyRead t \<and> 1 < length (hosts w) \<and> strict_eq (activeHost w) h \<and>
               loadBalancingStrategy w \<noteq> ROUND_ROBIN
            then next_index (activeHost w) (length (hosts w)) else activeHost w)"
    using assms by (simp add: failover_def)
  have "next_index (activeHost w) (length (hosts w)) \<noteq> activeHost w"
    if "1 < length (hosts w)" and "strict_eq (activeHost w) h"
    using that next_index_moves by (cases "activeHost w") auto
  then show ?thesis unfolding frame v by auto
qed

theorem C2_failover_cursor_witness:
  "useFailOver two_hosts = (loadBalancingStrategy two_hosts \<noteq> ROUND_ROBIN) \<and>
   useFailOver failed_over = (loadBalancingStrategy failed_over \<noteq> ROUND_ROBIN) \<and>
   activeHost (on_error sample_task (Num 0) ETIMEDOUT two_hosts) = Num 1 \<and>
   activeHost (on_error (pinned_task 1) (Num 1) ETIMEDOUT failed_over) = Num 0 \<and>
   activeHost (on_error dirty_task (Num 0) ETIMEDOUT two_hosts) = Num 0"
  using C2_failover_cursor [of two_hosts sample_task "Num 0" ETIMEDOUT]
        C2_failover_cursor [of failed_over "pinned_task 1" "Num 1" ETIMEDOUT]
        C2_failover_cursor [of two_hosts dirty_task "Num 0" ETIMEDOUT]
  by (simp add: two_hosts_def failed_over_def sample_task_def dirty_task_def pinned_task_def
      js_rem_def)

section \<open>Classifying a response\<close>

lemma js_and_Inr: "js_and (Inr a) (Inr b) = Inr (a \<and> b)"
  by (cases a) simp_all

lemma isArangoErrorResponse_shape:
  "isArangoErrorResponse b =
     (if shadows_hasOwnProperty b
      then Inl (new_TypeError ''body.hasOwnProperty is not a function'')
      else Inr (envelope_shape b))"
proof (cases b)
  case (Parsed j)
  then show ?thesis
    by (cases j)
      (auto simp: isArangoErrorResponse_def hasOwnProperty_def shadows_hasOwnProperty_def
        envelope_shape_def js_and_Inr)
qed (auto simp: isArangoErrorResponse_def hasOwnProperty_def shadows_hasOwnProperty_def
      envelope_shape_def js_and_Inr)

lemma parse_body_None:
  "(parse_body JSON_parse expectBinary res = None) =
     (res_body res \<noteq> [] \<and>
      (\<exists>ct. map_of (res_headers res) ''content-type'' = Some ct \<and> MIME_JSON ct) \<and>
      JSON_parse (res_body res) = None \<and> \<not> expectBinary)"
  by (auto simp: parse_body_def split: option.splits)

lemma task_resolve_shadowed:
  "parse_body JSON_parse expectBinary res = Some b \<Longrightarrow> shadows_hasOwnProperty b \<Longrightarrow>
   task_resolve JSON_parse expectBinary transform res =
     Inl (new_TypeError ''body.hasOwnProperty is not a function'')"
  by (simp add: task_resolve_def isArangoErrorResponse_shape)

lemma task_resolve_envelope:
  "parse_body JSON_parse expectBinary res = Some b \<Longrightarrow> \<not> shadows_hasOwnProperty b \<Longrightarrow>
   envelope_shape b \<Longrightarrow>
   task_resolve JSON_parse expectBinary transform res =
     Inr (Rejected (ArangoError (get_prop b ''errorMessage'') (get_prop b ''errorNum'')
                      (get_prop b ''code'') (with_body res b)))"
  by (simp add: task_resolve_def isArangoErrorResponse_shape new_ArangoError_def with_body_def)

lemma task_resolve_other:
  "parse_body JSON_parse expectBinary res = Some b \<Longrightarrow> \<not> shadows_hasOwnProperty b \<Longrightarrow>
   \<not> envelope_shape b \<Longrightarrow>
   task_resolve JSON_parse expectBinary transform res =
     (if (case statusCode res of None \<Rightarrow> False | Some n \<Rightarrow> 400 \<le> n)
      then Inr (Rejected (HttpError (the (statusCode res)) (with_body res b)))
      else (case transform of
              None \<Rightarrow>
                Inr (Resolved (Inr (with_body res (if expectBinary then Buffer (res_body res) else b))))
            | Some f \<Rightarrow>
                (case f (with_body res (if expectBinary then Buffer (res_body res) else b)) of
                   Inl e \<Rightarrow> Inl e
                 | Inr v \<Rightarrow> Inr (Resolved (Inl v)))))"
  by (auto simp: task_resolve_def isArangoErrorResponse_shape new_HttpError_def with_body_def
      Let_def split: option.splits)

text \<open>
  Claim C6, as stated, fails: a response with status 200 and a JSON content type whose
  body is not JSON is neither an error envelope nor an HTTP error, yet the promise is not
  resolved: the wrapper rejects it with the error of \<open>JSON.parse\<close>. With status 404 the
  rejection is that parse error as well, not an HTTP error.
\<close>

theorem C6_unparsable_body_is_rejected:
  "statusCode (json_response 200 ''{'') = Some 200 \<and>
   sample_JSON_parse ''{'' = None \<and>
   task_resolve sample_JSON_parse False (None :: (reply \<Rightarrow> js_error + unit) option)
       (json_response 200 ''{'')
     = Inr (Rejected (JsonSyntaxError (json_response 200 ''{''))) \<and>
   task_resolve sample_JSON_parse False (None :: (reply \<Rightarrow> js_error + unit) option)
       (json_response 404 ''{'')
     = Inr (Rejected (JsonSyntaxError (json_response 404 ''{'')))"
  by (simp add: task_resolve_def parse_body_def json_response_def sample_JSON_parse_def
      envelope_text_def version_text_def shadowed_text_def quoted_def token_at_def
      starts_with_def word_char_def)

text \<open>
  Claim C6, amended. The wrapper cannot decode the body exactly when the content type is
  JSON, the body is not empty, \<open>JSON.parse\<close> throws and no binary body is expected, and
  then the promise is rejected with the parse error. For every other completed
  non-redirect response, when the decoded body has no key \<open>hasOwnProperty\<close> of its own:
  if the decoded body has the shape of the error envelope (an object with the fields
  \<open>error\<close>, \<open>code\<close>, \<open>errorMessage\<close> and \<open>errorNum\<close>), the promise is rejected with an
  ArangoError carrying the envelope's errorMessage, errorNum and code; otherwise, if the
  status is at least 400, it is rejected with an HttpError carrying that status;
  otherwise it is resolved with the response when no transform was given, and with
  \<open>transform(response)\<close> when the transform returns.
\<close>

theorem C6_classification:
  "((parse_body JSON_parse expectBinary res = None) =
      (res_body res \<noteq> [] \<and>
       (\<exists>ct. map_of (res_headers res) ''content-type'' = Some ct \<and> MIME_JSON ct) \<and>
       JSON_parse (res_body res) = None \<and> \<not> expectBinary)) \<and>
   (parse_body JSON_parse expectBinary res = None \<longrightarrow>
      task_resolve JSON_parse expectBinary transform res = Inr (Rejected (JsonSyntaxError res))) \<and>
   (parse_body JSON_parse expectBinary res = Some b \<and> \<not> shadows_hasOwnProperty b \<and>
    envelope_shape b \<longrightarrow>
      task_resolve JSON_parse expectBinary transform res =
        Inr (Rejected (ArangoError (get_prop b ''errorMessage'') (get_prop b ''errorNum'')
                         (get_prop b ''code'') (with_body res b))) \<and>
      get_prop b ''errorMessage'' \<noteq> None \<and> get_prop b ''errorNum'' \<noteq> None) \<and>
   (parse_body JSON_parse expectBinary res = Some b \<and> \<not> shadows_hasOwnProperty b \<and>
    \<not> envelope_shape b \<and> statusCode res = Some n \<and> 400 \<le> n \<longrightarrow>
      task_resolve JSON_parse expectBinary transform res =
        Inr (Rejected (HttpError n (with_body res b)))) \<and>
   (parse_body JSON_parse expectBinary res = Some b \<and> \<not> shadows_hasOwnProperty b \<and>
    \<not> envelope_shape b \<and> (\<forall>n. statusCode res = Some n \<longrightarrow> n < 400) \<longrightarrow>
      (transform = None \<longrightarrow>
         task_resolve JSON_parse expectBinary transform res =
           Inr (Resolved (Inr (with_body res (if expectBinary then Buffer (res_body res) else b))))) \<and>
      (\<forall>f v. transform = Some f \<and>
              f (with_body res (if expectBinary then Buffer (res_body res) else b)) = Inr v \<longrightarrow>
         task_resolve JSON_parse expectBinary transform res = Inr (Resolved (Inl v))))"
proof (intro conjI impI)
  show "(parse_body JSON_parse expectBinary res = None) =
      (res_body res \<noteq> [] \<and>
       (\<exists>ct. map_of (res_headers res) ''content-type'' = Some ct \<and> MIME_JSON ct) \<and>
       JSON_parse (res_body res) = None \<and> \<not> expectBinary)"
    by (rule parse_body_None)
next
  assume "parse_body JSON_parse expectBinary res = None"
  then show "task_resolve JSON_parse expectBinary transform res
               = Inr (Rejected (JsonSyntaxError res))"
    by (simp add: task_resolve_def)
next
  assume a: "parse_body JSON_parse expectBinary res = Some b \<and> \<not> shadows_hasOwnProperty b \<and>
    envelope_shape b"
  then show "task_resolve JSON_parse expectBinary transform res =
        Inr (Rejected (ArangoError (get_prop b ''errorMessage'') (get_prop b ''errorNum'')
                         (get_prop b ''code'') (with_body res b)))"
    by (simp add: task_resolve_envelope)
  from a show "get_prop b ''errorMessage'' \<noteq> None"
    by (auto simp: envelope_shape_def get_prop_def split: body_value.splits json.splits)
  from a show "get_prop b ''errorNum'' \<noteq> None"
    by (auto simp: envelope_shape_def get_prop_def split: body_value.splits json.splits)
next
  assume a: "parse_body JSON_parse expectBinary res = Some b \<and> \<not> shadows_hasOwnProperty b \<and>
    \<not> envelope_shape b \<and> statusCode res = Some n \<and> 400 \<le> n"
  then show "task_resolve JSON_parse expectBinary transform res =
        Inr (Rejected (HttpError n (with_body res b)))"
    using task_resolve_other [of JSON_parse expectBinary res b transform] by simp
next
  assume a: "parse_body JSON_parse expectBinary res = Some b \<and> \<not> shadows_hasOwnProperty b \<and>
    \<not> envelope_shape b \<and> (\<forall>n. statusCode res = Some n \<longrightarrow> n < 400)"
  then have s: "\<not> (case statusCode res of None \<Rightarrow> False | Some n \<Rightarrow> 400 \<le> n)"
    by (cases "statusCode res") auto
  {
    assume "transform = None"
    with a s show "task_resolve JSON_parse expectBinary transform res =
           Inr (Resolved (Inr (with_body res (if expectBinary then Buffer (res_body res) else b))))"
      using task_resolve_other [of JSON_parse expectBinary res b transform] by simp
  }
  show "\<forall>f v. transform = Some f \<and>
              f (with_body res (if expectBinary then Buffer (res_body res) else b)) = Inr v \<longrightarrow>
         task_resolve JSON_parse expectBinary transform res = Inr (Resolved (Inl v))"
    using a s task_resolve_other [of JSON_parse expectBinary res b transform] by auto
qed

lemma parse_body_samples:
  "parse_body sample_JSON_parse False (json_response n ''{'') = None"
  "parse_body sample_JSON_parse False (json_response n envelope_text) = Some (Parsed envelope_value)"
  "parse_body sample_JSON_parse False (json_response n version_text) = Some (Parsed version_value)"
  "parse_body sample_JSON_parse False (json_response n shadowed_text) = Some (Parsed shadowed_value)"
  by (simp_all add: parse_body_def json_response_def sample_JSON_parse_def envelope_text_def
      version_text_def shadowed_text_def quoted_def token_at_def starts_with_def word_char_def)

lemma envelope_samples:
  "envelope_shape (Parsed envelope_value)" "\<not> shadows_hasOwnProperty (Parsed envelope_value)"
  "\<not> envelope_shape (Parsed version_value)" "\<not> shadows_hasOwnProperty (Parsed version_value)"
  "envelope_shape (Parsed shadowed_value)" "shadows_hasOwnProperty (Parsed shadowed_value)"
  "get_prop (Parsed envelope_value) ''error'' = Some (JBool False)"
  "get_prop (Parsed envelope_value) ''errorMessage'' = Some (JString ''fine'')"
  "get_prop (Parsed envelope_value) ''errorNum'' = Some (JNumber 0)"
  "get_prop (Parsed envelope_value) ''code'' = Some (JNumber 200)"
  by (simp_all add: envelope_shape_def shadows_hasOwnProperty_def get_prop_def
      envelope_value_def version_value_def shadowed_value_def)

lemma statusCode_json_response: "statusCode (json_response n x) = Some n"
  by (simp add: json_response_def)

theorem C6_classification_witness:
  "parse_body sample_JSON_parse False (json_response 200 ''{'') = None \<and>
   task_resolve sample_JSON_parse False (Some status_transform) (json_response 200 ''{'')
     = Inr (Rejected (JsonSyntaxError (json_response 200 ''{''))) \<and>
   parse_body sample_JSON_parse False (json_response 500 envelope_text)
     = Some (Parsed envelope_value) \<and>
   envelope_shape (Parsed envelope_value) \<and> \<not> shadows_hasOwnProperty (Parsed envelope_value) \<and>
   task_resolve sample_JSON_parse False (Some status_transform) (json_response 500 envelope_text)
     = Inr (Rejected (ArangoError (Some (JString ''fine'')) (Some (JNumber 0)) (Some (JNumber 200))
                        (with_body (json_response 500 envelope_text) (Parsed envelope_value)))) \<and>
   parse_body sample_JSON_parse False (json_response 404 version_text)
     = Some (Parsed version_value) \<and>
   \<not> envelope_shape (Parsed version_value) \<and> \<not> shadows_hasOwnProperty (Parsed version_value) \<and>
   task_resolve sample_JSON_parse False (Some status_transform) (json_response 404 version_text)
     = Inr (Rejected (HttpError 404
                        (with_body (json_response 404 version_text) (Parsed version_value)))) \<and>
   task_resolve sample_JSON_parse False (Some status_transform) (json_response 200 version_text)
     = Inr (Resolved (Inl (Some 200))) \<and>
   task_resolve sample_JSON_parse False (None :: (reply \<Rightarrow> js_error + nat option) option)
       (json_response 200 version_text)
     = Inr (Resolved (Inr (with_body (json_response 200 version_text) (Parsed version_value))))"
proof -
  have a: "task_resolve sample_JSON_parse False (Some status_transform) (json_response 200 ''{'')
     = Inr (Rejected (JsonSyntaxError (json_response 200 ''{'')))"
    using C6_classification [where JSON_parse = sample_JSON_parse and expectBinary = False
        and res = "json_response 200 ''{''" and transform = "Some status_transform"]
    by (simp add: parse_body_samples)
  have b: "task_resolve sample_JSON_parse False (Some status_transform)
             (json_response 500 envelope_text)
     = Inr (Rejected (ArangoError (Some (JString ''fine'')) (Some (JNumber 0)) (Some (JNumber 200))
                        (with_body (json_response 500 envelope_text) (Parsed envelope_value))))"
    using C6_classification [where JSON_parse = sample_JSON_parse and expectBinary = False
        and res = "json_response 500 envelope_text" and transform = "Some status_transform"
        and b = "Parsed envelope_value"]
    by (simp add: parse_body_samples envelope_samples)
  have c: "task_resolve sample_JSON_parse False (Some status_transform)
             (json_response 404 version_text)
     = Inr (Rejected (HttpError 404
                        (with_body (json_response 404 version_text) (Parsed version_value))))"
    using C6_classification [where JSON_parse = sample_JSON_parse and expectBinary = False
        and res = "json_response 404 version_text" and transform = "Some status_transform"
        and b = "Parsed version_value" and n = 404]
    by (simp add: parse_body_samples envelope_samples statusCode_json_response)
  have d: "task_resolve sample_JSON_parse False (Some status_transform)
             (json_response 200 version_text) = Inr (Resolved (Inl (Some 200)))"
    using C6_classification [where JSON_parse = sample_JSON_parse and expectBinary = False
        and res = "json_response 200 version_text" and transform = "Some status_transform"
        and b = "Parsed version_value"]
    by (simp add: parse_body_samples envelope_samples statusCode_json_response with_body_def
        status_transform_def)
  have e: "task_resolve sample_JSON_parse False (None :: (reply \<Rightarrow> js_error + nat option) option)
       (json_response 200 version_text)
     = Inr (Resolved (Inr (with_body (json_response 200 version_text) (Parsed version_value))))"
    using C6_classification [where JSON_parse = sample_JSON_parse and expectBinary = False
        and res = "json_response 200 version_text"
        and transform = "None :: (reply \<Rightarrow> js_error + nat option) option"
        and b = "Parsed version_value"]
    by (simp add: parse_body_samples envelope_samples statusCode_json_response)
  show ?thesis
    using a b c d e by (simp add: parse_body_samples envelope_samples)
qed

text \<open>
  Where the decoded body has no key \<open>hasOwnProperty\<close> of its own, the envelope test
  comes before the status test and looks neither at the status nor at the value of the
  body's \<open>error\<close> field: a body that owns \<open>error\<close>, \<open>code\<close>, \<open>errorMessage\<close> and
  \<open>errorNum\<close> is rejected with an ArangoError, whatever the status and whatever the four
  values; and a rejection with an HttpError only happens for a body that is not of that
  shape.
\<close>

lemma envelope_precedence:
  "(parse_body JSON_parse expectBinary res = Some (Parsed (JObject kvs)) \<and>
    map_of kvs ''hasOwnProperty'' = None \<and>
    map_of kvs ''error'' = Some e \<and> map_of kvs ''code'' = Some c \<and>
    map_of kvs ''errorMessage'' = Some m \<and> map_of kvs ''errorNum'' = Some k \<longrightarrow>
      task_resolve JSON_parse expectBinary transform res =
        Inr (Rejected (ArangoError (Some m) (Some k) (Some c)
                         (with_body res (Parsed (JObject kvs)))))) \<and>
   (task_resolve JSON_parse expectBinary transform res = Inr (Rejected (HttpError n r)) \<longrightarrow>
      \<not> envelope_shape (reply_body r))"
proof (intro conjI impI)
  assume a: "parse_body JSON_parse expectBinary res = Some (Parsed (JObject kvs)) \<and>
    map_of kvs ''hasOwnProperty'' = None \<and>
    map_of kvs ''error'' = Some e \<and> map_of kvs ''code'' = Some c \<and>
    map_of kvs ''errorMessage'' = Some m \<and> map_of kvs ''errorNum'' = Some k"
  then have "\<not> shadows_hasOwnProperty (Parsed (JObject kvs))"
    and "envelope_shape (Parsed (JObject kvs))"
    by (simp_all add: shadows_hasOwnProperty_def envelope_shape_def)
  with a task_resolve_envelope [of JSON_parse expectBinary res "Parsed (JObject kvs)" transform]
  show "task_resolve JSON_parse expectBinary transform res =
        Inr (Rejected (ArangoError (Some m) (Some k) (Some c)
                         (with_body res (Parsed (JObject kvs)))))"
    by (simp add: get_prop_def)
next
  assume "task_resolve JSON_parse expectBinary transform res = Inr (Rejected (HttpError n r))"
  then show "\<not> envelope_shape (reply_body r)"
    by (auto simp: task_resolve_def isArangoErrorResponse_shape new_ArangoError_def
        new_HttpError_def with_body_def Let_def
        split: option.splits if_splits sum.splits bool.splits)
qed

text \<open>
  Claim C10, at a body that owns the four properties of the envelope and a fifth one
  named \<open>hasOwnProperty\<close>. The server answers with status 404, a JSON content type and
  the body \<open>{"error":true,"code":404,"errorMessage":"gone","errorNum":1202,"hasOwnProperty":1}\<close>.
  The decoded body possesses \<open>error\<close>, \<open>code\<close>, \<open>errorMessage\<close> and \<open>errorNum\<close>, and
  the promise is not rejected with an ArangoError: \<open>isArangoErrorResponse\<close> calls the
  body's own \<open>hasOwnProperty\<close>, which is the number 1, and throws a TypeError out of the
  wrapper, so that neither \<open>resolve\<close> nor \<open>reject\<close> is called. With status 200 it is
  the same. In the completion callback the throw comes before \<open>this._runQueue()\<close>.
\<close>

theorem C10_shadowed_hasOwnProperty_throws:
  "sample_JSON_parse shadowed_text = Some shadowed_value \<and>
   parse_body sample_JSON_parse False (json_response 404 shadowed_text)
     = Some (Parsed shadowed_value) \<and>
   get_prop (Parsed shadowed_value) ''error'' = Some (JBool True) \<and>
   get_prop (Parsed shadowed_value) ''code'' = Some (JNumber 404) \<and>
   get_prop (Parsed shadowed_value) ''errorMessage'' = Some (JString ''gone'') \<and>
   get_prop (Parsed shadowed_value) ''errorNum'' = Some (JNumber 1202) \<and>
   envelope_shape (Parsed shadowed_value) \<and>
   isArangoErrorResponse (Parsed shadowed_value)
     = Inl (new_TypeError ''body.hasOwnProperty is not a function'') \<and>
   task_resolve sample_JSON_parse False (None :: (reply \<Rightarrow> js_error + unit) option)
       (json_response 404 shadowed_text)
     = Inl (new_TypeError ''body.hasOwnProperty is not a function'') \<and>
   task_resolve sample_JSON_parse False (None :: (reply \<Rightarrow> js_error + unit) option)
       (json_response 200 shadowed_text)
     = Inl (new_TypeError ''body.hasOwnProperty is not a function'') \<and>
   callback sample_url_parse sample_JSON_parse no_transform sample_task (Num 0)
       (Success (json_response 404 shadowed_text)) (two_hosts\<lparr>activeTasks := 1\<rparr>)
     = Inl (new_TypeError ''body.hasOwnProperty is not a function'',
            two_hosts\<lparr>calls := [(0, TaskResolve (json_response 404 shadowed_text))]\<rparr>)"
proof -
  have p: "sample_JSON_parse shadowed_text = Some shadowed_value"
    by (simp add: sample_JSON_parse_def envelope_text_def version_text_def shadowed_text_def
        quoted_def)
  have g: "get_prop (Parsed shadowed_value) ''error'' = Some (JBool True)"
    "get_prop (Parsed shadowed_value) ''code'' = Some (JNumber 404)"
    "get_prop (Parsed shadowed_value) ''errorMessage'' = Some (JString ''gone'')"
    "get_prop (Parsed shadowed_value) ''errorNum'' = Some (JNumber 1202)"
    by (simp_all add: get_prop_def shadowed_value_def)
  have i: "isArangoErrorResponse (Parsed shadowed_value)
             = Inl (new_TypeError ''body.hasOwnProperty is not a function'')"
    by (simp add: isArangoErrorResponse_def hasOwnProperty_def shadowed_value_def)
  have t: "task_resolve sample_JSON_parse False (None :: (reply \<Rightarrow> js_error + unit) option)
       (json_response n shadowed_text)
     = Inl (new_TypeError ''body.hasOwnProperty is not a function'')" for n
    by (simp add: task_resolve_def parse_body_samples i)
  have c: "callback sample_url_parse sample_JSON_parse no_transform sample_task (Num 0)
       (Success (json_response 404 shadowed_text)) (two_hosts\<lparr>activeTasks := 1\<rparr>)
     = Inl (new_TypeError ''body.hasOwnProperty is not a function'',
            two_hosts\<lparr>calls := [(0, TaskResolve (json_response 404 shadowed_text))]\<rparr>)"
    by code_simp
  from p g i t c show ?thesis by (simp add: parse_body_samples envelope_samples)
qed

section \<open>Dirty reads\<close>

text \<open>
  Claim C7. A task that may be read dirty and is not pinned (\<open>host\<close> undefined,
  \<open>allowDirtyRead\<close> true) is sent to the host under the dirty cursor; selecting its host
  changes the connection in the dirty cursor only, which moves on by one modulo the size
  of the pool (from \<open>d\<close> to \<open>(d + 1) mod n\<close>, for a cursor \<open>d\<close> that is not negative
  and a pool of \<open>n\<close> hosts, \<open>n\<close> positive), and leaves the active-host cursor as it is.
  The same holds of the dispatch by \<open>runQueue\<close> when that host exists. When a task that
  may be read dirty fails, pinned or not, the error path does not move the active-host
  cursor; when a task that may not be read dirty fails on the host under the active-host
  cursor of a connection with failover and several hosts, it does.
\<close>

theorem C7_dirty_read_cursor_independence:
  assumes "allowDirtyRead t"
  shows "(host t = None \<longrightarrow>
            fst (select_host t c) = activeDirtyHost c \<and>
            snd (snd (select_host t c)) =
              c\<lparr>activeDirtyHost := next_index (activeDirtyHost c) (length (hosts c))\<rparr> \<and>
            activeHost (snd (snd (select_host t c))) = activeHost c \<and>
            (\<forall>d. activeDirtyHost c = Num d \<and> 0 \<le> d \<and> hosts c \<noteq> [] \<longrightarrow>
               activeDirtyHost (snd (snd (select_host t c)))
                 = Num ((d + 1) mod int (length (hosts c))))) \<and>
         (host t = None \<and> queue w = t # rest \<and> activeTasks w < maxTasks w \<and>
          host_at (hosts w) (activeDirtyHost w) \<noteq> None \<longrightarrow>
            map snd (pending (runQueue w)) = map snd (pending w) @ [activeDirtyHost w] \<and>
            (\<exists>d. activeDirtyHost w = Num d \<and>
                 activeDirtyHost (runQueue w) = Num ((d + 1) mod int (length (hosts w)))) \<and>
            activeHost (runQueue w) = activeHost w) \<and>
         activeHost (failover t h c) = activeHost c \<and>
         activeHost (on_error t h err w) = activeHost w \<and>
         (\<forall>t'. \<not> allowDirtyRead t' \<and> 1 < length (hosts w) \<and> strict_eq (activeHost w) h \<and>
               useFailOver w \<longrightarrow>
            activeHost (on_error t' h err w) \<noteq> activeHost w)"
proof -
  have step: "next_index (Num d) n = Num ((d + 1) mod int n)" if "0 \<le> d" and "0 < n" for d n
  proof -
    from that have "sgn (d + 1) = 1" and "\<bar>d + 1\<bar> = d + 1" by simp_all
    with that show ?thesis by (simp add: js_rem_def)
  qed
  have sel: "select_host t c =
     (activeDirtyHost c,
      t\<lparr>options := (options t)\<lparr>opt_headers :=
           AList.update ''x-arango-allow-dirty-read'' ''true'' (opt_headers (options t))\<rparr>\<rparr>,
      c\<lparr>activeDirtyHost := next_index (activeDirtyHost c) (length (hosts c))\<rparr>)"
    if "host t = None" for c :: "'b Connection_scheme"
    using assms that by (simp add: select_host_def)
  have d1: "fst (select_host t c) = activeDirtyHost c \<and>
            snd (snd (select_host t c)) =
              c\<lparr>activeDirtyHost := next_index (activeDirtyHost c) (length (hosts c))\<rparr> \<and>
            activeHost (snd (snd (select_host t c))) = activeHost c \<and>
            (\<forall>d. activeDirtyHost c = Num d \<and> 0 \<le> d \<and> hosts c \<noteq> [] \<longrightarrow>
               activeDirtyHost (snd (snd (select_host t c)))
                 = Num ((d + 1) mod int (length (hosts c))))"
    if n: "host t = None"
    using step by (simp add: sel [OF n])
  have d2: "map snd (pending (runQueue w)) = map snd (pending w) @ [activeDirtyHost w] \<and>
            (\<exists>d. activeDirtyHost w = Num d \<and>
                 activeDirtyHost (runQueue w) = Num ((d + 1) mod int (length (hosts w)))) \<and>
            activeHost (runQueue w) = activeHost w"
    if n: "host t = None" and q: "queue w = t # rest" and a: "activeTasks w < maxTasks w"
      and f: "host_at (hosts w) (activeDirtyHost w) \<noteq> None"
  proof -
    from f obtain g where g: "host_at (hosts w) (activeDirtyHost w) = Some g" by auto
    then obtain d where d: "activeDirtyHost w = Num d" and r: "0 \<le> d" "d < int (length (hosts w))"
      by (cases "activeDirtyHost w") (auto simp: host_at_def split: if_splits)
    from r have p: "0 < length (hosts w)" by auto
    note rq = runQueue_dispatch [OF q a sel [OF n], of g]
    from g have "host_at
       (hosts (w\<lparr>queue := rest,
                 activeDirtyHost := next_index (activeDirtyHost (w\<lparr>queue := rest\<rparr>))
                    (length (hosts (w\<lparr>queue := rest\<rparr>)))\<rparr>)) (activeDirtyHost (w\<lparr>queue := rest\<rparr>))
       = Some g" by simp
    from rq [OF this] d step [OF r(1) p] show ?thesis by simp
  qed
  have e1: "activeHost (failover t h c) = activeHost c"
    using assms by (simp add: failover_def)
  have e2: "activeHost (on_error t h err w) = activeHost w"
    using assms by (simp add: on_error_def failover_def Let_def)
  have e3: "activeHost (on_error t' h err w) \<noteq> activeHost w"
    if "\<not> allowDirtyRead t' \<and> 1 < length (hosts w) \<and> strict_eq (activeHost w) h \<and> useFailOver w"
    for t'
  proof -
    from that obtain a where a: "activeHost w = Num a" by (cases "activeHost w") auto
    have "activeHost (on_error t' h err w) = next_index (activeHost w) (length (hosts w))"
      using that by (simp add: on_error_def failover_def Let_def)
    with a next_index_moves [of "length (hosts w)" a] that show ?thesis by simp
  qed
  from d1 d2 e1 e2 e3 show ?thesis by blast
qed

theorem C7_dirty_read_witness:
  "allowDirtyRead next_dirty_task \<and> host next_dirty_task = None \<and>
   run sample_url_parse sample_JSON_parse no_transform [Request dirty_request] two_hosts
     = Some (Inr dirty_once) \<and>
   activeDirtyHost dirty_once = Num 1 \<and> length (hosts dirty_once) = 2 \<and>
   fst (select_host next_dirty_task dirty_once) = Num 1 \<and>
   activeDirtyHost (snd (snd (select_host next_dirty_task dirty_once))) = Num 0 \<and>
   activeHost (snd (snd (select_host next_dirty_task dirty_once))) = Num 0 \<and>
   map snd (pending (runQueue (dirty_once\<lparr>queue := [next_dirty_task]\<rparr>))) = [Num 0, Num 1] \<and>
   activeDirtyHost (runQueue (dirty_once\<lparr>queue := [next_dirty_task]\<rparr>)) = Num 0 \<and>
   activeHost (runQueue (dirty_once\<lparr>queue := [next_dirty_task]\<rparr>)) = Num 0 \<and>
   allowDirtyRead pinned_dirty_task \<and> host pinned_dirty_task = Some (Num 0) \<and>
   activeHost dirty_once = Num 0 \<and>
   activeHost (on_error pinned_dirty_task (Num 0) ETIMEDOUT dirty_once) = Num 0 \<and>
   activeHost (on_error dirty_task (Num 0) ETIMEDOUT dirty_once) = Num 0 \<and>
   activeHost (on_error sample_task (Num 0) ETIMEDOUT dirty_once) \<noteq> Num 0"
proof -
  let ?w = "dirty_once\<lparr>queue := [next_dirty_task]\<rparr>"
  have r: "run sample_url_parse sample_JSON_parse no_transform [Request dirty_request] two_hosts
     = Some (Inr dirty_once)"
    by code_simp
  have f: "allowDirtyRead next_dirty_task" "host next_dirty_task = None"
    "allowDirtyRead pinned_dirty_task" "host pinned_dirty_task = Some (Num 0)"
    "\<not> allowDirtyRead sample_task"
    "activeDirtyHost dirty_once = Num 1" "length (hosts dirty_once) = 2"
    "activeHost dirty_once = Num 0" "useFailOver dirty_once" "hosts dirty_once \<noteq> []"
    "queue ?w = next_dirty_task # []" "activeTasks ?w < maxTasks ?w"
    "host_at (hosts ?w) (activeDirtyHost ?w) \<noteq> None"
    "map snd (pending ?w) = [Num 0]" "activeDirtyHost ?w = Num 1" "length (hosts ?w) = 2"
    "activeHost ?w = Num 0"
    by (simp_all add: dirty_task_def next_dirty_task_def pinned_dirty_task_def sample_task_def
        dirty_once_def two_hosts_def host_at_def)
  note A = C7_dirty_read_cursor_independence
      [where t = next_dirty_task and c = dirty_once and w = ?w and rest = "[]" and h = "Num 0"
         and err = ETIMEDOUT, OF f(1)]
  note B = C7_dirty_read_cursor_independence
      [where t = pinned_dirty_task and c = dirty_once and w = dirty_once and rest = "[]"
         and h = "Num 0" and err = ETIMEDOUT, OF f(3)]
  from A f(2) have a1: "fst (select_host next_dirty_task dirty_once) = activeDirtyHost dirty_once"
    and a2: "activeHost (snd (snd (select_host next_dirty_task dirty_once))) = activeHost dirty_once"
    and a3: "\<forall>d. activeDirtyHost dirty_once = Num d \<and> 0 \<le> d \<and> hosts dirty_once \<noteq> [] \<longrightarrow>
               activeDirtyHost (snd (snd (select_host next_dirty_task dirty_once)))
                 = Num ((d + 1) mod int (length (hosts dirty_once)))"
    by blast+
  from a3 [rule_format, of 1] f
  have a4: "activeDirtyHost (snd (snd (select_host next_dirty_task dirty_once))) = Num 0" by simp
  from A f(2,11,12,13)
  have q1: "map snd (pending (runQueue ?w)) = map snd (pending ?w) @ [activeDirtyHost ?w]"
    and q2: "\<exists>d. activeDirtyHost ?w = Num d \<and>
                 activeDirtyHost (runQueue ?w) = Num ((d + 1) mod int (length (hosts ?w)))"
    and q3: "activeHost (runQueue ?w) = activeHost ?w"
    by blast+
  from q2 f(15,16) have q4: "activeDirtyHost (runQueue ?w) = Num 0" by auto
  note C = C7_dirty_read_cursor_independence
      [where t = dirty_task and c = dirty_once and w = dirty_once and rest = "[]"
         and h = "Num 0" and err = ETIMEDOUT]
  have "allowDirtyRead dirty_task" by (simp add: dirty_task_def)
  from C [OF this] f(8)
  have e1': "activeHost (on_error dirty_task (Num 0) ETIMEDOUT dirty_once) = Num 0"
    by simp
  from B have e2: "activeHost (on_error pinned_dirty_task (Num 0) ETIMEDOUT dirty_once)
                     = activeHost dirty_once"
    and e3: "\<forall>t'. \<not> allowDirtyRead t' \<and> 1 < length (hosts dirty_once) \<and>
                  strict_eq (activeHost dirty_once) (Num 0) \<and> useFailOver dirty_once \<longrightarrow>
               activeHost (on_error t' (Num 0) ETIMEDOUT dirty_once) \<noteq> activeHost dirty_once"
    by blast+
  from e3 [rule_format, of sample_task] f
  have e4: "activeHost (on_error sample_task (Num 0) ETIMEDOUT dirty_once) \<noteq> Num 0" by simp
  from r f a1 a2 a4 q1 q3 q4 e1' e2 e4 show ?thesis by simp
qed

section \<open>The host pool\<close>

lemma indexOf_ge: "-1 \<le> indexOf xs x"
  by (induction xs) (auto simp: Let_def)

lemma indexOf_absent: "(indexOf xs x = -1) = (x \<notin> set xs)"
proof (induction xs)
  case Nil
  show ?case by simp
next
  case (Cons y ys)
  have "indexOf ys x + 1 \<noteq> -1" using indexOf_ge [of ys x] by simp
  with Cons show ?case by (auto simp: Let_def)
qed



lemma createRequest_value: "createRequest url_parse u = Inr f \<Longrightarrow> f = RequestFunction u"
  by (auto simp: createRequest_def Let_def split: option.splits if_splits)

lemma createRequests_value:
  "createRequests url_parse us = Inr fs \<Longrightarrow> fs = map RequestFunction us"
proof (induction us arbitrary: fs)
  case Nil
  then show ?case by simp
next
  case (Cons u us)
  then show ?case
    by (auto split: sum.splits dest: createRequest_value)
qed

lemma addToHostList_returns:
  assumes "addToHostList url_parse us c = (Inr indices, c')"
  shows "c' = c\<lparr>urls := urls c @ filter (\<lambda>u. u \<notin> set (urls c)) (map normalizeUrl us),
                 hosts := hosts c @ map RequestFunction
                            (filter (\<lambda>u. u \<notin> set (urls c)) (map normalizeUrl us))\<rparr>"
    and "indices = map (\<lambda>u. indexOf (urls c') (normalizeUrl u)) us"
  using assms
  by (auto simp: addToHostList_def Let_def indexOf_absent comp_def
      split: sum.splits dest: createRequests_value)






section \<open>Leader redirects\<close>




lemma on_response_redirect:
  assumes "statusCode r = Some 503" and "leader_endpoint r = Some url"
    and "on_response url_parse JSON_parse transform_of t h r w = Inr w'"
  shows "\<exists>w1 index. addToHostList url_parse [url] w = (Inr [index], w1) \<and>
           w' = (if strict_eq (activeHost w1) h then w1\<lparr>activeHost := Num index\<rparr> else w1)
                  \<lparr>queue := queue w1 @ [t\<lparr>host := Some (Num index)\<rparr>]\<rparr>"
proof (cases "addToHostList url_parse [url] w")
  case (Pair res w1)
  show ?thesis
  proof (cases res)
    case (Inl e)
    with Pair assms show ?thesis by (simp add: on_response_def)
  next
    case (Inr indices)
    from addToHostList_returns(2) [of url_parse "[url]" w indices w1] Pair Inr
    obtain index where "indices = [index]" by auto
    with Pair Inr assms show ?thesis by (auto simp: on_response_def Let_def)
  qed
qed


section \<open>Reasoning about the dispatch loop\<close>

lemma runQueue_rule:
  assumes P: "P w"
    and idle: "\<And>w. P w \<Longrightarrow> queue w = [] \<or> maxTasks w \<le> activeTasks w \<Longrightarrow> Q w"
    and dispatch: "\<And>w t rest h t1 w1 f.
        P w \<Longrightarrow> queue w = t # rest \<Longrightarrow> activeTasks w < maxTasks w \<Longrightarrow>
        select_host t (w\<lparr>queue := rest\<rparr>) = (h, t1, w1) \<Longrightarrow> host_at (hosts w1) h = Some f \<Longrightarrow>
        Q (w1\<lparr>activeTasks := activeTasks w1 + 1, pending := pending w1 @ [(t1, h)],
              sent := sent w1 @ [(t1, h)]\<rparr>)"
    and throw: "\<And>w t rest h t1 w1.
        P w \<Longrightarrow> queue w = t # rest \<Longrightarrow> activeTasks w < maxTasks w \<Longrightarrow>
        select_host t (w\<lparr>queue := rest\<rparr>) = (h, t1, w1) \<Longrightarrow> host_at (hosts w1) h = None \<Longrightarrow>
        P (on_error t1 h (new_TypeError ''this._hosts[host] is not a function'') w1)"
  shows "Q (runQueue w)"
  using P
proof (induction w rule: runQueue.induct)
  case (1 w)
  show ?case
  proof (cases "queue w = [] \<or> maxTasks w \<le> activeTasks w")
    case True
    then show ?thesis using idle [OF "1.prems"] by (simp add: runQueue_idle)
  next
    case False
    then obtain t rest where q: "queue w = t # rest" and a: "activeTasks w < maxTasks w"
      by (cases "queue w") auto
    obtain h t1 w1 where s: "select_host t (w\<lparr>queue := rest\<rparr>) = (h, t1, w1)"
      by (cases "select_host t (w\<lparr>queue := rest\<rparr>)") auto
    show ?thesis
    proof (cases "host_at (hosts w1) h")
      case (Some f)
      from dispatch [OF "1.prems" q a s Some] show ?thesis
        by (simp add: runQueue_dispatch [OF q a s Some])
    next
      case None
      have "Q (runQueue (on_error t1 h (new_TypeError ''this._hosts[host] is not a function'')
                 ((w1\<lparr>activeTasks := activeTasks w1 + 1\<rparr>)
                    \<lparr>activeTasks := activeTasks (w1\<lparr>activeTasks := activeTasks w1 + 1\<rparr>) - 1\<rparr>)))"
      proof (rule "1.IH" [OF q _ refl _ _ refl])
        show "\<not> maxTasks w \<le> activeTasks w" using a by simp
        show "(h, t1, w1) = select_host t (w\<lparr>queue := rest\<rparr>)" using s by simp
        show "(t1, w1) = (t1, w1)" by simp
        show "host_at (hosts (w1\<lparr>activeTasks := activeTasks w1 + 1\<rparr>)) h = None"
          using None by simp
        show "P (on_error t1 h (new_TypeError ''this._hosts[host] is not a function'')
                 ((w1\<lparr>activeTasks := activeTasks w1 + 1\<rparr>)
                    \<lparr>activeTasks := activeTasks (w1\<lparr>activeTasks := activeTasks w1 + 1\<rparr>) - 1\<rparr>))"
          using throw [OF "1.prems" q a s None] by simp
      qed
      then show ?thesis by (simp add: runQueue_throw [OF q a s None])
    qed
  qed
qed

lemma select_host_frame:
  assumes "select_host t c = (h, t1, c1)"
  shows "queue c1 = queue c" and "hosts c1 = hosts c" and "urls c1 = urls c"
    and "activeTasks c1 = activeTasks c" and "maxTasks c1 = maxTasks c"
    and "loadBalancingStrategy c1 = loadBalancingStrategy c" and "useFailOver c1 = useFailOver c"
    and "shouldRetry c1 = shouldRetry c" and "maxRetries c1 = maxRetries c"
    and "precaptureStackTraces c1 = precaptureStackTraces c"
    and "promise t1 = promise t" and "retries t1 = retries t" and "host t1 = host t"
    and "allowDirtyRead t1 = allowDirtyRead t" and "stack t1 = stack t"
  using assms by (auto simp: select_host_def split: option.splits if_splits)

lemma select_host_world_frame:
  assumes "select_host t (w :: world) = (h, t1, w1)"
  shows "pending w1 = pending w" and "sent w1 = sent w" and "calls w1 = calls w"
    and "nextPromise w1 = nextPromise w"
  using assms by (auto simp: select_host_def split: option.splits if_splits)

lemma on_error_frame:
  "hosts (on_error t h err w) = hosts w" "urls (on_error t h err w) = urls w"
  "activeTasks (on_error t h err w) = activeTasks w" "maxTasks (on_error t h err w) = maxTasks w"
  "loadBalancingStrategy (on_error t h err w) = loadBalancingStrategy w"
  "useFailOver (on_error t h err w) = useFailOver w"
  "shouldRetry (on_error t h err w) = shouldRetry w" "maxRetries (on_error t h err w) = maxRetries w"
  "precaptureStackTraces (on_error t h err w) = precaptureStackTraces w"
  "pending (on_error t h err w) = pending w" "sent (on_error t h err w) = sent w"
  "nextPromise (on_error t h err w) = nextPromise w"
  "activeDirtyHost (on_error t h err w) = activeDirtyHost w"
  by (simp_all add: on_error_def failover_def Let_def)

lemma on_error_TypeError:
  "on_error t h (new_TypeError m) w =
     (failover t h w)\<lparr>calls := calls w @ [(promise t, TaskReject (with_task_stack t (new_TypeError m)))]\<rparr>"
  by (simp add: on_error_def failover_def is_ECONNREFUSED_def isSystemError_def new_TypeError_def)

lemma failover_frame:
  "queue (failover t h c) = queue c" "hosts (failover t h c) = hosts c"
  "activeTasks (failover t h c) = activeTasks c" "maxTasks (failover t h c) = maxTasks c"
  "maxRetries (failover t h c) = maxRetries c" "shouldRetry (failover t h c) = shouldRetry c"
  "activeDirtyHost (failover t h c) = activeDirtyHost c"
  by (simp_all add: failover_def)

lemma failover_world_frame:
  "pending (failover t h (w :: world)) = pending w" "sent (failover t h w) = sent w"
  "calls (failover t h w) = calls w" "nextPromise (failover t h w) = nextPromise w"
  by (simp_all add: failover_def)
section \<open>The concurrency bound\<close>

lemma runQueue_slots: "slots_open w \<Longrightarrow> slots_ok (runQueue w)"
proof (rule runQueue_rule [where P = slots_open and Q = slots_ok])
  fix w assume "slots_open w" and "queue w = [] \<or> maxTasks w \<le> activeTasks w"
  then show "slots_ok w" by (auto simp: slots_open_def slots_ok_def)
next
  fix w :: world and t rest h t1 w1 f
  assume p: "slots_open w" and q: "queue w = t # rest" and a: "activeTasks w < maxTasks w"
    and s: "select_host t (w\<lparr>queue := rest\<rparr>) = (h, t1, w1)"
  note fr = select_host_frame [OF s] select_host_world_frame [OF s]
  from p q a show "slots_ok (w1\<lparr>activeTasks := activeTasks w1 + 1,
      pending := pending w1 @ [(t1, h)], sent := sent w1 @ [(t1, h)]\<rparr>)"
    by (cases rest) (auto simp: slots_open_def slots_ok_def fr)
next
  fix w :: world and t rest h t1 w1
  assume p: "slots_open w" and q: "queue w = t # rest" and a: "activeTasks w < maxTasks w"
    and s: "select_host t (w\<lparr>queue := rest\<rparr>) = (h, t1, w1)"
  note fr = select_host_frame [OF s] select_host_world_frame [OF s]
  from p q a
  show "slots_open (on_error t1 h (new_TypeError ''this._hosts[host] is not a function'') w1)"
    by (auto simp: slots_open_def on_error_TypeError failover_frame failover_world_frame fr)
qed

lemma request_slots: "slots_ok w \<Longrightarrow> slots_ok (request p w)"
  unfolding request_def Let_def
  by (rule runQueue_slots) (auto simp: slots_ok_def slots_open_def)

lemma on_error_slots:
  assumes "slots_ok w" and "i < length (pending w)"
  shows "slots_open (on_error t h err
           (w\<lparr>pending := take i (pending w) @ drop (Suc i) (pending w),
              activeTasks := activeTasks w - 1\<rparr>))"
proof -
  have "length (take i (pending w) @ drop (Suc i) (pending w)) = length (pending w) - 1"
    using assms(2) by simp
  then show ?thesis
    using assms by (auto simp: slots_ok_def slots_open_def on_error_def failover_def Let_def)
qed

lemma on_response_frame:
  assumes "on_response url_parse JSON_parse transform_of t h r w = Inr w'"
  shows "activeTasks w' = activeTasks w" and "maxTasks w' = maxTasks w"
    and "pending w' = pending w" and "sent w' = sent w" and "nextPromise w' = nextPromise w"
    and "loadBalancingStrategy w' = loadBalancingStrategy w" and "useFailOver w' = useFailOver w"
    and "shouldRetry w' = shouldRetry w" and "maxRetries w' = maxRetries w"
    and "activeDirtyHost w' = activeDirtyHost w"
    and "queue w' = queue w \<or> (\<exists>t'. queue w' = queue w @ [t'])"
  using assms
  by (auto simp: on_response_def addToHostList_def Let_def
      split: option.splits if_splits sum.splits list.splits)

lemma on_response_slots:
  assumes "slots_ok w" and "i < length (pending w)"
    and "on_response url_parse JSON_parse transform_of t h r
           (w\<lparr>pending := take i (pending w) @ drop (Suc i) (pending w),
              activeTasks := activeTasks w - 1\<rparr>) = Inr w'"
  shows "slots_open w'"
proof -
  have l: "length (take i (pending w) @ drop (Suc i) (pending w)) = length (pending w) - 1"
    using assms(2) by simp
  note fr = on_response_frame [OF assms(3)]
  from fr(11) show ?thesis
    using assms(1,2) l by (auto simp: slots_ok_def slots_open_def fr(1-3))
qed

lemma step_slots:
  assumes "slots_ok w" and "step url_parse JSON_parse transform_of ev w = Some (Inr w')"
  shows "slots_ok w'"
proof (cases ev)
  case (Request p)
  with assms show ?thesis by (auto simp: step_def request_slots)
next
  case (Completion i out)
  with assms(2) have i: "i < length (pending w)"
    by (auto simp: step_def split: if_splits)
  obtain t h where th: "pending w ! i = (t, h)" by (cases "pending w ! i") auto
  let ?v = "w\<lparr>pending := take i (pending w) @ drop (Suc i) (pending w)\<rparr>"
  from assms(2) Completion i th have c: "callback url_parse JSON_parse transform_of t h out ?v = Inr w'"
    by (simp add: step_def)
  show ?thesis
  proof (cases out)
    case (Failure err)
    with c have "w' = runQueue (on_error t h err (?v\<lparr>activeTasks := activeTasks ?v - 1\<rparr>))"
      by (simp add: callback_def)
    then show ?thesis using on_error_slots [OF assms(1) i, of t h err]
      by (simp add: runQueue_slots)
  next
    case (Success r)
    with c obtain w2 where
      o: "on_response url_parse JSON_parse transform_of t h r (?v\<lparr>activeTasks := activeTasks ?v - 1\<rparr>) = Inr w2"
      and w': "w' = runQueue w2"
      by (auto simp: callback_def Let_def split: sum.splits)
    from o have "on_response url_parse JSON_parse transform_of t h r
           (w\<lparr>pending := take i (pending w) @ drop (Suc i) (pending w),
              activeTasks := activeTasks w - 1\<rparr>) = Inr w2" by simp
    from on_response_slots [OF assms(1) i this] w' show ?thesis
      by (simp add: runQueue_slots)
  qed
qed

lemma run_slots:
  "slots_ok w \<Longrightarrow> run url_parse JSON_parse transform_of evs w = Some (Inr w') \<Longrightarrow> slots_ok w'"
proof (induction evs arbitrary: w)
  case Nil
  then show ?case by simp
next
  case (Cons e es)
  then show ?case
    by (auto split: option.splits sum.splits dest: step_slots)
qed

lemma new_Connection_fields:
  assumes "new_Connection url_parse rnd config = Inr c"
  shows "activeTasks c = 0" and "0 \<le> maxTasks c" and "queue c = []"
    and "useFailOver c = (loadBalancingStrategy c \<noteq> ROUND_ROBIN)"
    and "loadBalancingStrategy c \<noteq> ONE_RANDOM \<longrightarrow> activeHost c = Num 0 \<and> activeDirtyHost c = Num 0"
  using assms
  by (auto simp: new_Connection_def addToHostList_def Let_def
      split: option.splits sum.splits if_splits prod.splits)

lemma boot_fields:
  "activeTasks (boot c) = activeTasks c" "maxTasks (boot c) = maxTasks c"
  "queue (boot c) = queue c" "hosts (boot c) = hosts c" "urls (boot c) = urls c"
  "activeHost (boot c) = activeHost c" "activeDirtyHost (boot c) = activeDirtyHost c"
  "loadBalancingStrategy (boot c) = loadBalancingStrategy c" "useFailOver (boot c) = useFailOver c"
  "shouldRetry (boot c) = shouldRetry c" "maxRetries (boot c) = maxRetries c"
  "pending (boot c) = []" "sent (boot c) = []" "calls (boot c) = []" "nextPromise (boot c) = 0"
  by (simp_all add: boot_def)

lemma boot_slots: "new_Connection url_parse rnd config = Inr c \<Longrightarrow> slots_ok (boot c)"
  using new_Connection_fields(1-3) [of url_parse rnd config c]
  by (simp add: slots_ok_def boot_fields)
lemma runQueue_settings: "settings (runQueue w) = settings w"
proof (rule runQueue_rule [where P = "\<lambda>v. settings v = settings w"])
  show "settings w = settings w" by simp
next
  fix v :: world and t rest h t1 w1 f
  assume p: "settings v = settings w" and s: "select_host t (v\<lparr>queue := rest\<rparr>) = (h, t1, w1)"
  note fr = select_host_frame [OF s]
  from p show "settings (w1\<lparr>activeTasks := activeTasks w1 + 1,
      pending := pending w1 @ [(t1, h)], sent := sent w1 @ [(t1, h)]\<rparr>) = settings w"
    by (simp add: settings_def fr)
next
  fix v :: world and t rest h t1 w1
  assume p: "settings v = settings w" and s: "select_host t (v\<lparr>queue := rest\<rparr>) = (h, t1, w1)"
  note fr = select_host_frame [OF s]
  from p show "settings (on_error t1 h (new_TypeError ''this._hosts[host] is not a function'') w1)
                 = settings w"
    by (simp add: settings_def fr on_error_frame)
qed simp

lemma step_settings:
  assumes "step url_parse JSON_parse transform_of ev w = Some (Inr w')"
  shows "settings w' = settings w"
proof (cases ev)
  case (Request p)
  with assms show ?thesis
    by (auto simp: step_def request_def Let_def runQueue_settings) (simp_all add: settings_def)
next
  case (Completion i out)
  with assms have i: "i < length (pending w)"
    by (auto simp: step_def split: if_splits)
  obtain t h where th: "pending w ! i = (t, h)" by (cases "pending w ! i") auto
  let ?v = "w\<lparr>pending := take i (pending w) @ drop (Suc i) (pending w)\<rparr>"
  from assms Completion i th have c: "callback url_parse JSON_parse transform_of t h out ?v = Inr w'"
    by (simp add: step_def)
  show ?thesis
  proof (cases out)
    case (Failure err)
    with c show ?thesis
      by (auto simp: callback_def runQueue_settings) (simp add: settings_def on_error_frame)
  next
    case (Success r)
    with c obtain w2 where
      o: "on_response url_parse JSON_parse transform_of t h r (?v\<lparr>activeTasks := activeTasks ?v - 1\<rparr>) = Inr w2"
      and w': "w' = runQueue w2"
      by (auto simp: callback_def Let_def split: sum.splits)
    note fr = on_response_frame [OF o]
    have "precaptureStackTraces w2 = precaptureStackTraces w"
      using o by (auto simp: on_response_def addToHostList_def Let_def
          split: option.splits if_splits sum.splits list.splits)
    then show ?thesis using w' fr by (simp add: runQueue_settings) (simp add: settings_def)
  qed
qed

lemma run_settings:
  "run url_parse JSON_parse transform_of evs w = Some (Inr w') \<Longrightarrow> settings w' = settings w"
proof (induction evs arbitrary: w)
  case Nil
  then show ?case by simp
next
  case (Cons e es)
  then show ?case
    by (auto split: option.splits sum.splits dest: step_settings)
qed

lemma slots_ok_fixpoint: "slots_ok w \<Longrightarrow> runQueue w = w"
  by (rule runQueue_idle) (auto simp: slots_ok_def)

lemma runQueue_bounded: "slots_bounded w \<Longrightarrow> slots_bounded (runQueue w)"
proof (rule runQueue_rule [where P = slots_bounded and Q = slots_bounded])
  fix w :: world and t rest h t1 w1 f
  assume p: "slots_bounded w" and a: "activeTasks w < maxTasks w"
    and s: "select_host t (w\<lparr>queue := rest\<rparr>) = (h, t1, w1)"
  note fr = select_host_frame [OF s] select_host_world_frame [OF s]
  from p a show "slots_bounded (w1\<lparr>activeTasks := activeTasks w1 + 1,
      pending := pending w1 @ [(t1, h)], sent := sent w1 @ [(t1, h)]\<rparr>)"
    by (auto simp: slots_bounded_def fr)
next
  fix w :: world and t rest h t1 w1
  assume p: "slots_bounded w"
    and s: "select_host t (w\<lparr>queue := rest\<rparr>) = (h, t1, w1)"
  note fr = select_host_frame [OF s] select_host_world_frame [OF s]
  from p
  show "slots_bounded (on_error t1 h (new_TypeError ''this._hosts[host] is not a function'') w1)"
    by (auto simp: slots_bounded_def on_error_frame fr)
qed

lemma on_response_thrown:
  assumes "on_response url_parse JSON_parse transform_of t h r w = Inl (e, w')"
  shows "activeTasks w' = activeTasks w" and "maxTasks w' = maxTasks w"
    and "pending w' = pending w" and "sent w' = sent w" and "queue w' = queue w"
  using assms
  by (auto simp: on_response_def addToHostList_def Let_def
      split: option.splits if_splits sum.splits list.splits)

lemma callback_returns:
  assumes "callback url_parse JSON_parse transform_of t h out w = Inr w'"
  shows "\<exists>v. w' = runQueue v \<and> activeTasks v = activeTasks w - 1 \<and> maxTasks v = maxTasks w \<and>
             pending v = pending w \<and> sent v = sent w"
proof (cases out)
  case (Failure err)
  with assms have "w' = runQueue (on_error t h err (w\<lparr>activeTasks := activeTasks w - 1\<rparr>))"
    by (simp add: callback_def)
  then show ?thesis by (intro exI conjI, assumption) (simp_all add: on_error_frame)
next
  case (Success r)
  with assms obtain w2 where
    o: "on_response url_parse JSON_parse transform_of t h r
          (w\<lparr>activeTasks := activeTasks w - 1\<rparr>) = Inr w2"
    and w': "w' = runQueue w2"
    by (auto simp: callback_def Let_def split: sum.splits)
  note fr = on_response_frame [OF o]
  from w' show ?thesis by (intro exI conjI, assumption) (simp_all add: fr)
qed

lemma callback_throws:
  assumes "callback url_parse JSON_parse transform_of t h out w = Inl (e, w')"
  shows "activeTasks w' = activeTasks w - 1" and "maxTasks w' = maxTasks w"
    and "pending w' = pending w" and "sent w' = sent w" and "queue w' = queue w"
    and "\<exists>r. out = Success r"
proof -
  from assms obtain r where out: "out = Success r"
    and o: "on_response url_parse JSON_parse transform_of t h r
              (w\<lparr>activeTasks := activeTasks w - 1\<rparr>) = Inl (e, w')"
    by (cases out) (auto simp: callback_def Let_def split: sum.splits)
  note fr = on_response_thrown [OF o]
  show "activeTasks w' = activeTasks w - 1" using fr(1) by simp
  show "maxTasks w' = maxTasks w" using fr(2) by simp
  show "pending w' = pending w" using fr(3) by simp
  show "sent w' = sent w" using fr(4) by simp
  show "queue w' = queue w" using fr(5) by simp
  show "\<exists>r. out = Success r" using out by blast
qed

lemma step_bounded:
  assumes "slots_bounded w" and "step url_parse JSON_parse transform_of ev w = Some x"
  shows "slots_bounded (world_of x) \<and> maxTasks (world_of x) = maxTasks w"
proof (cases ev)
  case (Request p)
  let ?t = "\<lparr>promise = nextPromise w, retries = 0, host = req_host p,
             allowDirtyRead = req_allowDirtyRead p, options = req_options p,
             stack = (if precaptureStackTraces w
                      then map_option (\<lambda>s. CHR 0x0A # s) (req_callsite p) else None)\<rparr>"
  let ?v = "w\<lparr>queue := queue w @ [?t], nextPromise := nextPromise w + 1\<rparr>"
  from assms(2) Request have x: "x = Inr (runQueue ?v)"
    by (simp add: step_def request_def Let_def)
  have "slots_bounded ?v" using assms(1) by (simp add: slots_bounded_def)
  from runQueue_bounded [OF this] x runQueue_settings [of ?v] show ?thesis
    by (simp add: settings_def)
next
  case (Completion i out)
  with assms(2) have i: "i < length (pending w)"
    by (auto simp: step_def split: if_splits)
  obtain t h where th: "pending w ! i = (t, h)" by (cases "pending w ! i") auto
  let ?v = "w\<lparr>pending := take i (pending w) @ drop (Suc i) (pending w)\<rparr>"
  from assms(2) Completion i th
  have c: "callback url_parse JSON_parse transform_of t h out ?v = x"
    by (simp add: step_def)
  have l: "int (length (take i (pending w) @ drop (Suc i) (pending w)))
             = int (length (pending w)) - 1"
    using i by simp
  show ?thesis
  proof (cases x)
    case (Inl z)
    obtain e w' where z: "z = (e, w')" by (cases z) auto
    note fr = callback_throws [OF c [unfolded Inl z]]
    from assms(1) l have "slots_bounded w'" by (simp add: slots_bounded_def fr)
    with Inl z fr(2) show ?thesis by simp
  next
    case (Inr w')
    from callback_returns [OF c [unfolded Inr]] obtain v where
      w': "w' = runQueue v" and v: "activeTasks v = activeTasks ?v - 1" "maxTasks v = maxTasks ?v"
        "pending v = pending ?v"
      by blast
    from assms(1) l v have "slots_bounded v" by (simp add: slots_bounded_def)
    from runQueue_bounded [OF this] w' Inr runQueue_settings [of v] v(2) show ?thesis
      by (simp add: settings_def)
  qed
qed

lemma run_bounded:
  "slots_bounded w \<Longrightarrow> run url_parse JSON_parse transform_of evs w = Some x \<Longrightarrow>
   slots_bounded (world_of x) \<and> maxTasks (world_of x) = maxTasks w"
proof (induction evs arbitrary: w)
  case Nil
  then show ?case by auto
next
  case (Cons e es)
  from Cons.prems(2) obtain y where s: "step url_parse JSON_parse transform_of e w = Some y"
    by (auto split: option.splits)
  note b = step_bounded [OF Cons.prems(1) s]
  show ?case
  proof (cases y)
    case (Inl z)
    with Cons.prems(2) s have "x = y" by simp
    with b show ?thesis by simp
  next
    case (Inr w1)
    with Cons.prems(2) s have "run url_parse JSON_parse transform_of es w1 = Some x" by simp
    from Cons.IH [OF _ this] b Inr show ?thesis by simp
  qed
qed

lemma boot_bounded:
  "new_Connection url_parse rnd config = Inr c \<Longrightarrow> slots_bounded (boot c)"
  using boot_slots [of url_parse rnd config c] by (simp add: slots_ok_def slots_bounded_def)

lemma stalled_samples:
  "new_Connection sample_url_parse (0, 0) one_slot_config = Inr one_slot"
  "run sample_url_parse sample_JSON_parse failing_transform
     [Request sample_request, Request sample_request] (boot one_slot) = Some (Inr busy)"
  "run sample_url_parse sample_JSON_parse no_transform
     [Request sample_request, Request sample_request] (boot one_slot) = Some (Inr busy)"
  "step sample_url_parse sample_JSON_parse failing_transform
     (Completion 0 (Success (json_response 200 version_text))) busy
     = Some (Inl (new_TypeError ''res.body.result is undefined'',
                  stalled (json_response 200 version_text)))"
  "step sample_url_parse sample_JSON_parse no_transform
     (Completion 0 (Success (json_response 200 shadowed_text))) busy
     = Some (Inl (new_TypeError ''body.hasOwnProperty is not a function'',
                  stalled (json_response 200 shadowed_text)))"
  "runQueue (stalled r) =
     (stalled r)\<lparr>activeTasks := 1, queue := [],
                  pending := [(sample_task\<lparr>promise := 1\<rparr>, Num 0)],
                  sent := [(sample_task, Num 0), (sample_task\<lparr>promise := 1\<rparr>, Num 0)]\<rparr>"
proof -
  show "new_Connection sample_url_parse (0, 0) one_slot_config = Inr one_slot"
    by code_simp
  show "run sample_url_parse sample_JSON_parse failing_transform
     [Request sample_request, Request sample_request] (boot one_slot) = Some (Inr busy)"
    by code_simp
  show "run sample_url_parse sample_JSON_parse no_transform
     [Request sample_request, Request sample_request] (boot one_slot) = Some (Inr busy)"
    by code_simp
  show "step sample_url_parse sample_JSON_parse failing_transform
     (Completion 0 (Success (json_response 200 version_text))) busy
     = Some (Inl (new_TypeError ''res.body.result is undefined'',
                  stalled (json_response 200 version_text)))"
    by code_simp
  show "step sample_url_parse sample_JSON_parse no_transform
     (Completion 0 (Success (json_response 200 shadowed_text))) busy
     = Some (Inl (new_TypeError ''body.hasOwnProperty is not a function'',
                  stalled (json_response 200 shadowed_text)))"
    by code_simp
  show "runQueue (stalled r) =
     (stalled r)\<lparr>activeTasks := 1, queue := [],
                  pending := [(sample_task\<lparr>promise := 1\<rparr>, Num 0)],
                  sent := [(sample_task, Num 0), (sample_task\<lparr>promise := 1\<rparr>, Num 0)]\<rparr>"
    by (simp add: runQueue.simps stalled_def busy_def boot_def one_slot_def select_host_def
        sample_task_def host_at_def)
qed

text \<open>
  Claim C3, as stated, fails. A connection with one slot has one task in flight and one
  in the queue. The transport of the first invokes the callback with a response of status
  200, and the transform of that request throws. The callback has given the slot back
  (the counter is 0), and the throw leaves it before \<open>this._runQueue()\<close>: an in-flight
  request has completed and the dispatch loop has not run again. The second task is still
  in the queue, nothing is in flight, and no transport has been invoked for it, although
  the loop would invoke one. The same happens when no transform was given and the body
  of the response has a key \<open>hasOwnProperty\<close>.
\<close>

theorem C3_throwing_callback_skips_dispatch:
  "new_Connection sample_url_parse (0, 0) one_slot_config = Inr one_slot \<and>
   run sample_url_parse sample_JSON_parse failing_transform
     [Request sample_request, Request sample_request] (boot one_slot) = Some (Inr busy) \<and>
   maxTasks busy = 1 \<and> length (pending busy) = 1 \<and>
   map promise (queue busy) = [1] \<and>
   step sample_url_parse sample_JSON_parse failing_transform
     (Completion 0 (Success (json_response 200 version_text))) busy
     = Some (Inl (new_TypeError ''res.body.result is undefined'',
                  stalled (json_response 200 version_text))) \<and>
   step sample_url_parse sample_JSON_parse no_transform
     (Completion 0 (Success (json_response 200 shadowed_text))) busy
     = Some (Inl (new_TypeError ''body.hasOwnProperty is not a function'',
                  stalled (json_response 200 shadowed_text))) \<and>
   activeTasks (stalled (json_response 200 version_text)) = 0 \<and>
   pending (stalled (json_response 200 version_text)) = [] \<and>
   map promise (queue (stalled (json_response 200 version_text))) = [1] \<and>
   sent (stalled (json_response 200 version_text)) = sent busy \<and>
   runQueue (stalled (json_response 200 version_text))
     \<noteq> stalled (json_response 200 version_text) \<and>
   map (\<lambda>(t, h). promise t) (pending (runQueue (stalled (json_response 200 version_text)))) = [1]"
  using stalled_samples(1,2,4,5)
    stalled_samples(6) [of "json_response 200 version_text"]
  by (simp add: stalled_def busy_def boot_def one_slot_def sample_task_def)

text \<open>
  Claim C3, amended. In every world that a constructed connection reaches, a world in
  which a callback has just thrown included, and in every world reached from there, the
  number of tasks in flight (callbacks handed to a transport and not yet invoked) equals
  the counter and is at most \<open>maxTasks\<close>, which is the value the constructor computed.
  In any world whose counter has reached the bound the dispatch loop pops no task
  (\<open>runQueue\<close> leaves the world as it is), and a request is appended to the queue and
  nothing else happens: no transport is invoked. As long as no callback has thrown, a
  task waits in the queue only while the bound is reached; a completion whose callback
  returns ends with a run of the dispatch loop on the world in which the slot is free,
  after which the same holds again: the freed slot has been given to the head of the
  queue if there was one. A completion whose callback throws gives the slot back and
  does not run the dispatch loop: the queue stays as it is and no transport is invoked.
\<close>

theorem C3_concurrency_bound:
  assumes "new_Connection url_parse rnd config = Inr c"
    and "run url_parse JSON_parse transform_of evs (boot c) = Some x"
  shows "int (length (pending (world_of x))) \<le> maxTasks (world_of x) \<and>
         activeTasks (world_of x) = int (length (pending (world_of x))) \<and>
         maxTasks (world_of x) = maxTasks c \<and>
         (\<forall>more y. run url_parse JSON_parse transform_of more (world_of x) = Some y \<longrightarrow>
            int (length (pending (world_of y))) \<le> maxTasks (world_of y) \<and>
            activeTasks (world_of y) = int (length (pending (world_of y))) \<and>
            maxTasks (world_of y) = maxTasks c) \<and>
         (\<forall>v. maxTasks v \<le> activeTasks v \<longrightarrow>
            runQueue v = v \<and>
            (\<exists>t. request p v = v\<lparr>queue := queue v @ [t], nextPromise := nextPromise v + 1\<rparr>) \<and>
            pending (request p v) = pending v \<and> sent (request p v) = sent v) \<and>
         (\<forall>w. x = Inr w \<longrightarrow>
            (queue w = [] \<or> int (length (pending w)) = maxTasks w) \<and>
            runQueue w = w \<and>
            (\<forall>i out w'. step url_parse JSON_parse transform_of (Completion i out) w
                           = Some (Inr w') \<longrightarrow>
               (\<exists>v. w' = runQueue v \<and> activeTasks v = activeTasks w - 1 \<and>
                     sent v = sent w \<and>
                     pending v = take i (pending w) @ drop (Suc i) (pending w)) \<and>
               (queue w' = [] \<or> int (length (pending w')) = maxTasks w')) \<and>
            (\<forall>i out e w'. step url_parse JSON_parse transform_of (Completion i out) w
                             = Some (Inl (e, w')) \<longrightarrow>
               activeTasks w' = activeTasks w - 1 \<and> queue w' = queue w \<and> sent w' = sent w \<and>
               pending w' = take i (pending w) @ drop (Suc i) (pending w)))"
proof -
  note b0 = boot_bounded [OF assms(1)]
  from run_bounded [OF b0 assms(2)]
  have bx: "slots_bounded (world_of x)" and mx: "maxTasks (world_of x) = maxTasks c"
    by (simp_all add: boot_fields)
  have later: "int (length (pending (world_of y))) \<le> maxTasks (world_of y) \<and>
            activeTasks (world_of y) = int (length (pending (world_of y))) \<and>
            maxTasks (world_of y) = maxTasks c"
    if "run url_parse JSON_parse transform_of more (world_of x) = Some y" for more y
    using run_bounded [OF bx that] mx by (simp add: slots_bounded_def)
  have full: "runQueue v = v \<and>
            (\<exists>t. request p v = v\<lparr>queue := queue v @ [t], nextPromise := nextPromise v + 1\<rparr>) \<and>
            pending (request p v) = pending v \<and> sent (request p v) = sent v"
    if "maxTasks v \<le> activeTasks v" for v
    using that by (auto simp: request_def Let_def runQueue_idle)
  have inr: "(queue w = [] \<or> int (length (pending w)) = maxTasks w) \<and>
            runQueue w = w \<and>
            (\<forall>i out w'. step url_parse JSON_parse transform_of (Completion i out) w
                           = Some (Inr w') \<longrightarrow>
               (\<exists>v. w' = runQueue v \<and> activeTasks v = activeTasks w - 1 \<and>
                     sent v = sent w \<and>
                     pending v = take i (pending w) @ drop (Suc i) (pending w)) \<and>
               (queue w' = [] \<or> int (length (pending w')) = maxTasks w')) \<and>
            (\<forall>i out e w'. step url_parse JSON_parse transform_of (Completion i out) w
                             = Some (Inl (e, w')) \<longrightarrow>
               activeTasks w' = activeTasks w - 1 \<and> queue w' = queue w \<and> sent w' = sent w \<and>
               pending w' = take i (pending w) @ drop (Suc i) (pending w))"
    if x: "x = Inr w" for w
  proof -
    from assms(2) x have r: "run url_parse JSON_parse transform_of evs (boot c) = Some (Inr w)"
      by simp
    from run_slots [OF boot_slots [OF assms(1)] r] have ok: "slots_ok w" .
    have ret: "(\<exists>v. w' = runQueue v \<and> activeTasks v = activeTasks w - 1 \<and>
                     sent v = sent w \<and>
                     pending v = take i (pending w) @ drop (Suc i) (pending w)) \<and>
               (queue w' = [] \<or> int (length (pending w')) = maxTasks w')"
      if s: "step url_parse JSON_parse transform_of (Completion i out) w = Some (Inr w')"
      for i out w'
    proof -
      from s have i: "i < length (pending w)" by (auto simp: step_def split: if_splits)
      obtain t h where th: "pending w ! i = (t, h)" by (cases "pending w ! i") auto
      from s i th have "callback url_parse JSON_parse transform_of t h out
          (w\<lparr>pending := take i (pending w) @ drop (Suc i) (pending w)\<rparr>) = Inr w'"
        by (simp add: step_def)
      from callback_returns [OF this] have
        "\<exists>v. w' = runQueue v \<and> activeTasks v = activeTasks w - 1 \<and> sent v = sent w \<and>
             pending v = take i (pending w) @ drop (Suc i) (pending w)"
        by auto
      moreover from step_slots [OF ok s] have "slots_ok w'" .
      ultimately show ?thesis by (auto simp: slots_ok_def)
    qed
    have thr: "activeTasks w' = activeTasks w - 1 \<and> queue w' = queue w \<and> sent w' = sent w \<and>
               pending w' = take i (pending w) @ drop (Suc i) (pending w)"
      if s: "step url_parse JSON_parse transform_of (Completion i out) w = Some (Inl (e, w'))"
      for i out e w'
    proof -
      from s have i: "i < length (pending w)" by (auto simp: step_def split: if_splits)
      obtain t h where th: "pending w ! i = (t, h)" by (cases "pending w ! i") auto
      from s i th have "callback url_parse JSON_parse transform_of t h out
          (w\<lparr>pending := take i (pending w) @ drop (Suc i) (pending w)\<rparr>) = Inl (e, w')"
        by (simp add: step_def)
      from callback_throws(1,3,4,5) [OF this] show ?thesis by simp
    qed
    have q: "queue w = [] \<or> int (length (pending w)) = maxTasks w"
      using ok by (auto simp: slots_ok_def)
    from q slots_ok_fixpoint [OF ok] ret thr show ?thesis by blast
  qed
  show ?thesis
  proof (intro conjI)
    show "int (length (pending (world_of x))) \<le> maxTasks (world_of x)"
      using bx by (simp add: slots_bounded_def)
    show "activeTasks (world_of x) = int (length (pending (world_of x)))"
      using bx by (simp add: slots_bounded_def)
    show "maxTasks (world_of x) = maxTasks c" by (rule mx)
    show "\<forall>more y. run url_parse JSON_parse transform_of more (world_of x) = Some y \<longrightarrow>
            int (length (pending (world_of y))) \<le> maxTasks (world_of y) \<and>
            activeTasks (world_of y) = int (length (pending (world_of y))) \<and>
            maxTasks (world_of y) = maxTasks c"
      by (intro allI impI) (rule later)
    show "\<forall>v. maxTasks v \<le> activeTasks v \<longrightarrow>
            runQueue v = v \<and>
            (\<exists>t. request p v = v\<lparr>queue := queue v @ [t], nextPromise := nextPromise v + 1\<rparr>) \<and>
            pending (request p v) = pending v \<and> sent (request p v) = sent v"
      by (intro allI impI) (rule full)
    show "\<forall>w. x = Inr w \<longrightarrow>
            (queue w = [] \<or> int (length (pending w)) = maxTasks w) \<and>
            runQueue w = w \<and>
            (\<forall>i out w'. step url_parse JSON_parse transform_of (Completion i out) w
                           = Some (Inr w') \<longrightarrow>
               (\<exists>v. w' = runQueue v \<and> activeTasks v = activeTasks w - 1 \<and>
                     sent v = sent w \<and>
                     pending v = take i (pending w) @ drop (Suc i) (pending w)) \<and>
               (queue w' = [] \<or> int (length (pending w')) = maxTasks w')) \<and>
            (\<forall>i out e w'. step url_parse JSON_parse transform_of (Completion i out) w
                             = Some (Inl (e, w')) \<longrightarrow>
               activeTasks w' = activeTasks w - 1 \<and> queue w' = queue w \<and> sent w' = sent w \<and>
               pending w' = take i (pending w) @ drop (Suc i) (pending w))"
      by (intro allI impI) (rule inr)
  qed
qed

theorem C3_concurrency_bound_witness:
  "new_Connection sample_url_parse (0, 0) one_slot_config = Inr one_slot \<and>
   run sample_url_parse sample_JSON_parse failing_transform
     [Request sample_request, Request sample_request] (boot one_slot) = Some (Inr busy) \<and>
   maxTasks busy = 1 \<and> length (pending busy) = 1 \<and> length (queue busy) = 1 \<and>
   runQueue busy = busy \<and>
   sent (request sample_request busy) = sent busy \<and>
   length (queue (request sample_request busy)) = 2 \<and>
   step sample_url_parse sample_JSON_parse failing_transform
     (Completion 0 (Success (json_response 200 version_text))) busy
     = Some (Inl (new_TypeError ''res.body.result is undefined'',
                  stalled (json_response 200 version_text))) \<and>
   activeTasks (stalled (json_response 200 version_text)) = 0 \<and>
   queue (stalled (json_response 200 version_text)) = queue busy \<and>
   sent (stalled (json_response 200 version_text)) = sent busy"
proof -
  note n = stalled_samples(1) and r = stalled_samples(2) and s = stalled_samples(4)
  have b: "maxTasks busy = 1" "length (pending busy) = 1" "length (queue busy) = 1"
    "activeTasks busy = 1" "world_of (Inr busy) = busy"
    by (simp_all add: busy_def boot_def one_slot_def)
  note T = C3_concurrency_bound [OF n r, of sample_request, unfolded b(5)]
  from T have g: "\<forall>v. maxTasks v \<le> activeTasks v \<longrightarrow>
            runQueue v = v \<and>
            (\<exists>t. request sample_request v
                   = v\<lparr>queue := queue v @ [t], nextPromise := nextPromise v + 1\<rparr>) \<and>
            pending (request sample_request v) = pending v \<and>
            sent (request sample_request v) = sent v"
    by blast
  from g [rule_format, of busy] b
  have "runQueue busy = busy" and "sent (request sample_request busy) = sent busy"
    and "\<exists>t. request sample_request busy
            = busy\<lparr>queue := queue busy @ [t], nextPromise := nextPromise busy + 1\<rparr>"
    by simp_all
  then have q: "runQueue busy = busy" "sent (request sample_request busy) = sent busy"
    "length (queue (request sample_request busy)) = 2"
    using b by auto
  from T have "\<forall>i out e w'. step sample_url_parse sample_JSON_parse failing_transform
                 (Completion i out) busy = Some (Inl (e, w')) \<longrightarrow>
               activeTasks w' = activeTasks busy - 1 \<and> queue w' = queue busy \<and>
               sent w' = sent busy \<and>
               pending w' = take i (pending busy) @ drop (Suc i) (pending busy)"
    by blast
  from this [rule_format, OF s] b
  have t: "activeTasks (stalled (json_response 200 version_text)) = 0"
    "queue (stalled (json_response 200 version_text)) = queue busy"
    "sent (stalled (json_response 200 version_text)) = sent busy"
    by simp_all
  from n r s b q t show ?thesis by simp
qed

section \<open>Round robin\<close>










lemma on_response_plain:
  "\<not> is_leader_redirect r \<Longrightarrow>
   on_response url_parse JSON_parse transform_of t h r w =
     (case task_resolve JSON_parse (opt_expectBinary (options t)) (transform_of (promise t))
             (r\<lparr>arangojsHostId := Some h\<rparr>) of
        Inl e \<Rightarrow>
          Inl (e, w\<lparr>calls := calls w @
                       [(promise t, TaskResolve (r\<lparr>arangojsHostId := Some h\<rparr>))]\<rparr>)
      | Inr s \<Rightarrow>
          Inr (w\<lparr>calls := calls w @
                    [(promise t, TaskResolve (r\<lparr>arangojsHostId := Some h\<rparr>))]\<rparr>))"
  by (auto simp: on_response_def is_leader_redirect_def Let_def split: option.splits)

lemma on_response_plain_Inr:
  "\<not> is_leader_redirect r \<Longrightarrow>
   on_response url_parse JSON_parse transform_of t h r w = Inr w' \<Longrightarrow>
   w' = w\<lparr>calls := calls w @ [(promise t, TaskResolve (r\<lparr>arangojsHostId := Some h\<rparr>))]\<rparr>"
  by (auto simp: on_response_plain split: sum.splits)















section \<open>Every task is settled once\<close>

lemma mset_ids:
  "mset (ids w) =
     mset (map promise (queue w)) + mset (map (\<lambda>(t, h). promise t) (pending w)) +
     mset (map fst (calls w))"
  by (simp add: ids_def)

lemma runQueue_ids:
  "mset (ids (runQueue w)) = mset (ids w) \<and> nextPromise (runQueue w) = nextPromise w"
proof (rule runQueue_rule
    [where P = "\<lambda>v. mset (ids v) = mset (ids w) \<and> nextPromise v = nextPromise w"])
  show "mset (ids w) = mset (ids w) \<and> nextPromise w = nextPromise w" by simp
next
  fix v :: world and t rest h t1 w1 f
  assume p: "mset (ids v) = mset (ids w) \<and> nextPromise v = nextPromise w"
    and q: "queue v = t # rest" and s: "select_host t (v\<lparr>queue := rest\<rparr>) = (h, t1, w1)"
  note fr = select_host_frame [OF s] select_host_world_frame [OF s]
  have "mset (ids (w1\<lparr>activeTasks := activeTasks w1 + 1, pending := pending w1 @ [(t1, h)],
                     sent := sent w1 @ [(t1, h)]\<rparr>)) = mset (ids v)"
    using q by (simp add: mset_ids fr)
  with p show "mset (ids (w1\<lparr>activeTasks := activeTasks w1 + 1,
      pending := pending w1 @ [(t1, h)], sent := sent w1 @ [(t1, h)]\<rparr>)) = mset (ids w) \<and>
    nextPromise (w1\<lparr>activeTasks := activeTasks w1 + 1, pending := pending w1 @ [(t1, h)],
      sent := sent w1 @ [(t1, h)]\<rparr>) = nextPromise w"
    by (simp add: fr)
next
  fix v :: world and t rest h t1 w1
  assume p: "mset (ids v) = mset (ids w) \<and> nextPromise v = nextPromise w"
    and q: "queue v = t # rest" and s: "select_host t (v\<lparr>queue := rest\<rparr>) = (h, t1, w1)"
  note fr = select_host_frame [OF s] select_host_world_frame [OF s]
  have "mset (ids (on_error t1 h (new_TypeError ''this._hosts[host] is not a function'') w1))
          = mset (ids v)"
    using q by (simp add: mset_ids on_error_TypeError failover_frame failover_world_frame fr)
  with p show "mset (ids (on_error t1 h
        (new_TypeError ''this._hosts[host] is not a function'') w1)) = mset (ids w) \<and>
      nextPromise (on_error t1 h
        (new_TypeError ''this._hosts[host] is not a function'') w1) = nextPromise w"
    by (simp add: on_error_frame fr)
qed simp

lemma mset_without:
  "i < length xs \<Longrightarrow> mset (map f (take i xs @ drop (Suc i) xs)) + {#f (xs ! i)#} = mset (map f xs)"
proof -
  assume "i < length xs"
  then have "xs = take i xs @ xs ! i # drop (Suc i) xs" by (rule id_take_nth_drop)
  then have "mset (map f xs) = mset (map f (take i xs @ xs ! i # drop (Suc i) xs))" by simp
  then show ?thesis by simp
qed

lemma on_error_ids:
  "mset (ids (on_error t h err w)) = mset (ids w) + {#promise t#}"
  by (simp add: mset_ids on_error_def failover_def Let_def)

lemma on_response_ids:
  assumes "on_response url_parse JSON_parse transform_of t h r w = Inr w'"
  shows "mset (ids w') = mset (ids w) + {#promise t#}"
proof (cases "is_leader_redirect r")
  case False
  from on_response_plain_Inr [OF this assms] show ?thesis
    by (auto simp: mset_ids)
next
  case True
  then obtain url where "statusCode r = Some 503" and "leader_endpoint r = Some url"
    by (auto simp: is_leader_redirect_def)
  from on_response_redirect [OF this assms] obtain w1 index where
    a: "addToHostList url_parse [url] w = (Inr [index], w1)" and
    w': "w' = (if strict_eq (activeHost w1) h then w1\<lparr>activeHost := Num index\<rparr> else w1)
                  \<lparr>queue := queue w1 @ [t\<lparr>host := Some (Num index)\<rparr>]\<rparr>"
    by blast
  note r = addToHostList_returns [OF a]
  have "queue w1 = queue w" "pending w1 = pending w" "calls w1 = calls w"
    by (subst r(1), simp)+
  with w' show ?thesis by (auto simp: mset_ids)
qed

lemma step_ids:
  assumes "mset (ids w) = mset [0..<nextPromise w]" and "step url_parse JSON_parse transform_of ev w = Some (Inr w')"
  shows "mset (ids w') = mset [0..<nextPromise w']"
proof (cases ev)
  case (Request p)
  let ?t = "\<lparr>promise = nextPromise w, retries = 0, host = req_host p,
             allowDirtyRead = req_allowDirtyRead p, options = req_options p,
             stack = (if precaptureStackTraces w
                      then map_option (\<lambda>s. CHR 0x0A # s) (req_callsite p) else None)\<rparr>"
  let ?v = "w\<lparr>queue := queue w @ [?t], nextPromise := nextPromise w + 1\<rparr>"
  from assms(2) Request have w': "w' = runQueue ?v" by (simp add: step_def request_def Let_def)
  have "mset (ids ?v) = mset (ids w) + {#nextPromise w#}" by (simp add: mset_ids)
  with assms(1) have "mset (ids ?v) = mset [0..<nextPromise ?v]" by simp
  with w' runQueue_ids [of ?v] show ?thesis by simp
next
  case (Completion i out)
  with assms(2) have i: "i < length (pending w)"
    by (auto simp: step_def split: if_splits)
  obtain t h where th: "pending w ! i = (t, h)" by (cases "pending w ! i") auto
  let ?v = "w\<lparr>pending := take i (pending w) @ drop (Suc i) (pending w),
              activeTasks := activeTasks w - 1\<rparr>"
  from assms(2) Completion i th
  have c: "callback url_parse JSON_parse transform_of t h out
             (w\<lparr>pending := take i (pending w) @ drop (Suc i) (pending w)\<rparr>) = Inr w'"
    by (simp add: step_def)
  have v: "mset (ids ?v) + {#promise t#} = mset (ids w)"
    using mset_without [OF i, of "\<lambda>(t, h). promise t"] th by (simp add: mset_ids)
  have n: "nextPromise ?v = nextPromise w" by simp
  show ?thesis
  proof (cases out)
    case (Failure err)
    with c have w': "w' = runQueue (on_error t h err ?v)" by (simp add: callback_def)
    have "mset (ids (on_error t h err ?v)) = mset (ids w)"
      using v by (simp only: on_error_ids)
    with w' runQueue_ids [of "on_error t h err ?v"] assms(1) show ?thesis
      by (simp add: on_error_frame)
  next
    case (Success r)
    with c obtain w2 where o: "on_response url_parse JSON_parse transform_of t h r ?v = Inr w2" and w': "w' = runQueue w2"
      by (auto simp: callback_def Let_def split: sum.splits)
    have "mset (ids w2) = mset (ids w)"
      using v on_response_ids [OF o] by simp
    moreover have "nextPromise w2 = nextPromise w"
      using on_response_frame(5) [OF o] by simp
    ultimately show ?thesis using w' runQueue_ids [of w2] assms(1) by simp
  qed
qed

lemma run_ids:
  "mset (ids w) = mset [0..<nextPromise w] \<Longrightarrow> run url_parse JSON_parse transform_of evs w = Some (Inr w') \<Longrightarrow>
   mset (ids w') = mset [0..<nextPromise w']"
proof (induction evs arbitrary: w)
  case Nil
  then show ?case by simp
next
  case (Cons e es)
  from Cons.prems(2) obtain w1 where s: "step url_parse JSON_parse transform_of e w = Some (Inr w1)"
    and r: "run url_parse JSON_parse transform_of es w1 = Some (Inr w')"
    by (auto split: option.splits sum.splits)
  from Cons.IH [OF step_ids [OF Cons.prems(1) s] r] show ?case .
qed
lemma sum_list_without:
  "i < length xs \<Longrightarrow>
   sum_list (map f (take i xs @ drop (Suc i) xs)) + f (xs ! i) = (sum_list (map f xs) :: nat)"
proof -
  assume "i < length xs"
  then have "xs = take i xs @ xs ! i # drop (Suc i) xs" by (rule id_take_nth_drop)
  then have "sum_list (map f xs) = sum_list (map f (take i xs @ xs ! i # drop (Suc i) xs))"
    by simp
  then show ?thesis by simp
qed

lemma fuel_eq:
  "fuel w = sum_list (map (task_fuel (retry_budget w)) (queue w)) +
            sum_list (map (\<lambda>(t, h). task_fuel (retry_budget w) t) (pending w))"
  by (simp add: fuel_def comp_def case_prod_unfold)

lemma retry_budget_frame:
  "hosts w' = hosts w \<Longrightarrow> maxRetries w' = maxRetries w \<Longrightarrow> retry_budget w' = retry_budget w"
  by (simp add: retry_budget_def)

lemma task_fuel_frame: "retries t' = retries t \<Longrightarrow> task_fuel b t' = task_fuel b t"
  by (simp add: task_fuel_def)

lemma runQueue_fuel:
  "fuel (runQueue w) \<le> fuel w \<and> retry_budget (runQueue w) = retry_budget w"
proof (rule runQueue_rule
    [where P = "\<lambda>v. fuel v \<le> fuel w \<and> retry_budget v = retry_budget w"])
  show "fuel w \<le> fuel w \<and> retry_budget w = retry_budget w" by simp
next
  fix v :: world and t rest h t1 w1 f
  assume p: "fuel v \<le> fuel w \<and> retry_budget v = retry_budget w"
    and q: "queue v = t # rest" and s: "select_host t (v\<lparr>queue := rest\<rparr>) = (h, t1, w1)"
  let ?w' = "w1\<lparr>activeTasks := activeTasks w1 + 1, pending := pending w1 @ [(t1, h)],
                sent := sent w1 @ [(t1, h)]\<rparr>"
  note fr = select_host_frame [OF s] select_host_world_frame [OF s]
  have b: "retry_budget ?w' = retry_budget v"
    by (rule retry_budget_frame) (simp_all add: fr)
  have "fuel ?w' = fuel v"
    unfolding fuel_eq b using q by (simp add: fr task_fuel_frame [OF fr(12)])
  with p b show "fuel ?w' \<le> fuel w \<and> retry_budget ?w' = retry_budget w" by simp
next
  fix v :: world and t rest h t1 w1
  assume p: "fuel v \<le> fuel w \<and> retry_budget v = retry_budget w"
    and q: "queue v = t # rest" and s: "select_host t (v\<lparr>queue := rest\<rparr>) = (h, t1, w1)"
  let ?w' = "on_error t1 h (new_TypeError ''this._hosts[host] is not a function'') w1"
  note fr = select_host_frame [OF s] select_host_world_frame [OF s]
  have b: "retry_budget ?w' = retry_budget v"
    by (rule retry_budget_frame) (simp_all add: fr on_error_frame)
  have "fuel ?w' \<le> fuel v"
    unfolding fuel_eq b using q
    by (simp add: on_error_TypeError failover_frame failover_world_frame fr)
  with p b show "fuel ?w' \<le> fuel w \<and> retry_budget ?w' = retry_budget w" by simp
qed simp

lemma on_error_fuel:
  "fuel (on_error t h err w) + 1 \<le> fuel w + task_fuel (retry_budget w) t \<and>
   retry_budget (on_error t h err w) = retry_budget w"
proof -
  have b: "retry_budget (on_error t h err w) = retry_budget w"
    by (rule retry_budget_frame) (simp_all add: on_error_frame)
  have f: "retry_budget (failover t h w) = retry_budget w"
    by (rule retry_budget_frame) (simp_all add: failover_frame)
  have "fuel (on_error t h err w) + 1 \<le> fuel w + task_fuel (retry_budget w) t"
    unfolding fuel_eq b
    by (auto simp: on_error_def Let_def failover_frame failover_world_frame f task_fuel_def)
  with b show ?thesis by simp
qed

lemma plain_step_fuel:
  assumes "plain_completion ev" and "step url_parse JSON_parse transform_of ev w = Some x"
  shows "case x of
           Inr w' \<Rightarrow> fuel w' + 1 \<le> fuel w \<and> retry_budget w' = retry_budget w
         | Inl (e, w') \<Rightarrow> \<exists>t h r. wrapper_error JSON_parse transform_of t h r = Some e"
proof (cases ev)
  case (Request p)
  with assms(1) show ?thesis by simp
next
  case (Completion i out)
  with assms(2) have i: "i < length (pending w)"
    by (auto simp: step_def split: if_splits)
  obtain t h where th: "pending w ! i = (t, h)" by (cases "pending w ! i") auto
  let ?v = "w\<lparr>pending := take i (pending w) @ drop (Suc i) (pending w),
              activeTasks := activeTasks w - 1\<rparr>"
  from assms(2) Completion i th
  have c: "callback url_parse JSON_parse transform_of t h out
             (w\<lparr>pending := take i (pending w) @ drop (Suc i) (pending w)\<rparr>) = x"
    by (simp add: step_def)
  have bv: "retry_budget ?v = retry_budget w" by (rule retry_budget_frame) simp_all
  have v: "fuel ?v + task_fuel (retry_budget w) t = fuel w"
    unfolding fuel_eq bv
    using sum_list_without [OF i, of "\<lambda>(t, h). task_fuel (retry_budget w) t"] th by simp
  show ?thesis
  proof (cases out)
    case (Failure err)
    with c have x: "x = Inr (runQueue (on_error t h err ?v))" by (simp add: callback_def)
    from on_error_fuel [of t h err ?v] v bv
    have "fuel (on_error t h err ?v) + 1 \<le> fuel w"
      and "retry_budget (on_error t h err ?v) = retry_budget w" by simp_all
    with runQueue_fuel [of "on_error t h err ?v"] x show ?thesis by simp
  next
    case (Success r)
    with assms(1) Completion have nr: "\<not> is_leader_redirect r" by simp
    note o = on_response_plain [OF nr, of url_parse JSON_parse transform_of t h ?v]
    let ?u = "?v\<lparr>calls := calls ?v @ [(promise t, TaskResolve (r\<lparr>arangojsHostId := Some h\<rparr>))]\<rparr>"
    show ?thesis
    proof (cases "wrapper_error JSON_parse transform_of t h r")
      case None
      with o have "on_response url_parse JSON_parse transform_of t h r ?v = Inr ?u"
        by (simp add: wrapper_error_def split: sum.splits)
      with c Success have x: "x = Inr (runQueue ?u)" by (simp add: callback_def)
      have bu: "retry_budget ?u = retry_budget w" by (rule retry_budget_frame) simp_all
      have "fuel ?u = fuel ?v" unfolding fuel_eq bu bv by simp
      moreover have "1 \<le> task_fuel (retry_budget w) t" by (simp add: task_fuel_def)
      ultimately have "fuel ?u + 1 \<le> fuel w" using v by simp
      with runQueue_fuel [of ?u] bu x show ?thesis by simp
    next
      case (Some e)
      with o have "on_response url_parse JSON_parse transform_of t h r ?v = Inl (e, ?u)"
        by (simp add: wrapper_error_def split: sum.splits)
      with c Success have "x = Inl (e, ?u)" by (simp add: callback_def)
      with Some show ?thesis by auto
    qed
  qed
qed

lemma plain_run_fuel:
  "list_all plain_completion evs \<Longrightarrow> run url_parse JSON_parse transform_of evs w = Some x \<Longrightarrow>
   (case x of
      Inr w' \<Rightarrow> fuel w' + length evs \<le> fuel w
    | Inl (e, w') \<Rightarrow> \<exists>t h r. wrapper_error JSON_parse transform_of t h r = Some e)"
proof (induction evs arbitrary: w)
  case Nil
  then show ?case by auto
next
  case (Cons e es)
  from Cons.prems(2) obtain y where s: "step url_parse JSON_parse transform_of e w = Some y"
    by (auto split: option.splits)
  from Cons.prems(1) have e: "plain_completion e" and es: "list_all plain_completion es"
    by simp_all
  note f = plain_step_fuel [OF e s]
  show ?case
  proof (cases y)
    case (Inl z)
    with Cons.prems(2) s have "x = Inl z" by simp
    with f Inl show ?thesis by simp
  next
    case (Inr w1)
    with f have f1: "fuel w1 + 1 \<le> fuel w" by simp
    from Cons.prems(2) s Inr have "run url_parse JSON_parse transform_of es w1 = Some x" by simp
    from Cons.IH [OF es this] f1 show ?thesis
      by (auto split: sum.splits)
  qed
qed

lemma fuel_zero: "(fuel w = 0) = (queue w = [] \<and> pending w = [])"
  by (cases "pending w") (auto simp: fuel_def task_fuel_def)
lemma request_fuel:
  "fuel (request p w) \<le> fuel w + Suc (nat (retry_budget w)) \<and>
   retry_budget (request p w) = retry_budget w"
proof -
  let ?t = "\<lparr>promise = nextPromise w, retries = 0, host = req_host p,
             allowDirtyRead = req_allowDirtyRead p, options = req_options p,
             stack = (if precaptureStackTraces w
                      then map_option (\<lambda>s. CHR 0x0A # s) (req_callsite p) else None)\<rparr>"
  let ?v = "w\<lparr>queue := queue w @ [?t], nextPromise := nextPromise w + 1\<rparr>"
  have r: "request p w = runQueue ?v" by (simp add: request_def Let_def)
  have b: "retry_budget ?v = retry_budget w" by (rule retry_budget_frame) simp_all
  have "fuel ?v = fuel w + Suc (nat (retry_budget w))"
    unfolding fuel_eq b by (simp add: task_fuel_def)
  with runQueue_fuel [of ?v] b r show ?thesis by simp
qed

lemma quiet_run_fuel:
  "list_all (\<lambda>ev. \<not> redirect_event ev) evs \<Longrightarrow>
   run url_parse JSON_parse transform_of evs w = Some x \<Longrightarrow>
   (case x of
      Inr w' \<Rightarrow>
        retry_budget w' = retry_budget w \<and>
        fuel w' + length (filter plain_completion evs)
          \<le> fuel w + length (filter is_request evs) * Suc (nat (retry_budget w))
    | Inl (e, w') \<Rightarrow> \<exists>t h r. wrapper_error JSON_parse transform_of t h r = Some e)"
proof (induction evs arbitrary: w)
  case Nil
  then show ?case by auto
next
  case (Cons e es)
  from Cons.prems(2) obtain y where s: "step url_parse JSON_parse transform_of e w = Some y"
    by (auto split: option.splits)
  from Cons.prems(1) have e: "\<not> redirect_event e"
    and es: "list_all (\<lambda>ev. \<not> redirect_event ev) es" by simp_all
  have one: "case y of
          Inr w1 \<Rightarrow>
            retry_budget w1 = retry_budget w \<and>
            fuel w1 + (if plain_completion e then 1 else 0)
              \<le> fuel w + (if is_request e then Suc (nat (retry_budget w)) else 0)
        | Inl (z, w1) \<Rightarrow> \<exists>t h r. wrapper_error JSON_parse transform_of t h r = Some z"
  proof (cases e)
    case (Request p)
    with s request_fuel [of p w] show ?thesis by (auto simp: step_def)
  next
    case (Completion i out)
    with e have p: "plain_completion e" by (cases out) simp_all
    from plain_step_fuel [OF p s] Completion p show ?thesis
      by (auto split: sum.splits)
  qed
  show ?case
  proof (cases y)
    case (Inl z)
    with Cons.prems(2) s have "x = Inl z" by simp
    with one Inl show ?thesis by simp
  next
    case (Inr w1)
    with one have b1: "retry_budget w1 = retry_budget w"
      and f1: "fuel w1 + (if plain_completion e then 1 else 0)
            \<le> fuel w + (if is_request e then Suc (nat (retry_budget w)) else 0)"
      by simp_all
    from Cons.prems(2) s Inr have r: "run url_parse JSON_parse transform_of es w1 = Some x"
      by simp
    note ih = Cons.IH [OF es r]
    show ?thesis
    proof (cases x)
      case (Inl z)
      with ih show ?thesis by simp
    next
      case (Inr w')
      with ih have b: "retry_budget w' = retry_budget w1"
        and f: "fuel w' + length (filter plain_completion es)
          \<le> fuel w1 + length (filter is_request es) * Suc (nat (retry_budget w1))"
        by simp_all
      from f f1 b1 have "fuel w' + length (filter plain_completion (e # es))
          \<le> fuel w + length (filter is_request (e # es)) * Suc (nat (retry_budget w))"
        by (auto split: if_splits)
      with Inr b b1 show ?thesis by simp
    qed
  qed
qed

lemma run_append:
  "run url_parse JSON_parse transform_of xs w = Some (Inr w1) \<Longrightarrow> run url_parse JSON_parse transform_of (xs @ ys) w = run url_parse JSON_parse transform_of ys w1"
  by (induction xs arbitrary: w) (auto split: option.splits sum.splits)

lemma loop_start:
  "run sample_url_parse sample_JSON_parse no_transform
     [Request sample_request, Completion 0 (Success (redirect_to ''tcp://a:8529''))]
     (boot one_slot) = Some (Inr (loop_world 1))"
  by code_simp

lemma loop_step:
  "step sample_url_parse sample_JSON_parse no_transform (Completion 0 (Success (redirect_to ''tcp://a:8529''))) (loop_world n)
     = Some (Inr (loop_world (Suc n)))"
proof -
  have n: "normalizeUrl ''tcp://a:8529'' = ''http://a:8529''"
    by (simp add: normalizeUrl_def match_raw_def match_unix_def dot_plus_def
        line_terminator_def starts_with_def)
  have r: "replicate n x @ [x] = x # replicate n x" for x :: "task \<times> jsnum"
    by (simp add: replicate_append_same)
  show ?thesis
    by (simp add: step_def callback_def on_response_def redirect_to_def leader_endpoint_def
        addToHostList_def n loop_world_def boot_def one_slot_def pinned_task_def
        sample_task_def runQueue.simps select_host_def host_at_def r)
qed

lemma loop_run:
  "run sample_url_parse sample_JSON_parse no_transform (replicate n (Completion 0 (Success (redirect_to ''tcp://a:8529''))))
     (loop_world m) = Some (Inr (loop_world (m + n)))"
  by (induction n arbitrary: m) (simp_all add: loop_step)

text \<open>
  Claim C9, as stated, fails. A connection to one host gets one request; the host answers
  every transport invocation, once, with status 503 and its own address in
  \<open>x-arango-endpoint\<close>. The task is pinned and sent again each time: after any number
  of answers, the one task is in flight again and neither \<open>resolve\<close> nor \<open>reject\<close> has
  been called.
\<close>

theorem C9_redirect_loop_never_settles:
  "\<forall>n. run sample_url_parse sample_JSON_parse no_transform
          (Request sample_request
             # replicate (Suc n) (Completion 0 (Success (redirect_to ''tcp://a:8529''))))
          (boot one_slot) = Some (Inr (loop_world (Suc n))) \<and>
       calls (loop_world (Suc n)) = [] \<and>
       map (\<lambda>(t, h). promise t) (pending (loop_world (Suc n))) = [0] \<and>
       length (sent (loop_world (Suc n))) = Suc (Suc n) \<and>
       nextPromise (loop_world (Suc n)) = 1"
proof
  fix n
  let ?e = "Completion 0 (Success (redirect_to ''tcp://a:8529''))"
  have "run sample_url_parse sample_JSON_parse no_transform ([Request sample_request, ?e] @ replicate n ?e) (boot one_slot)
          = run sample_url_parse sample_JSON_parse no_transform (replicate n ?e) (loop_world 1)"
    by (simp only: run_append [OF loop_start])
  then have "run sample_url_parse sample_JSON_parse no_transform (Request sample_request # replicate (Suc n) ?e) (boot one_slot)
          = Some (Inr (loop_world (Suc n)))"
    by (simp add: loop_run)
  then show "run sample_url_parse sample_JSON_parse no_transform (Request sample_request # replicate (Suc n) ?e) (boot one_slot)
          = Some (Inr (loop_world (Suc n))) \<and>
       calls (loop_world (Suc n)) = [] \<and>
       map (\<lambda>(t, h). promise t) (pending (loop_world (Suc n))) = [0] \<and>
       length (sent (loop_world (Suc n))) = Suc (Suc n) \<and>
       nextPromise (loop_world (Suc n)) = 1"
    by (simp add: loop_world_def boot_def pinned_task_def sample_task_def)
qed
section \<open>First in, first out\<close>

lemma runQueue_pops:
  "\<exists>m. popped_from (queue v) v m (runQueue v) \<and> (queue v \<noteq> [] \<and> activeTasks v < maxTasks v \<longrightarrow> 1 \<le> m)"
proof (rule runQueue_rule
    [where P = "\<lambda>x. \<exists>m. popped_from (queue v) v m x \<and> (m = 0 \<longrightarrow> x = v)"])
  show "\<exists>m. popped_from (queue v) v m v \<and> (m = 0 \<longrightarrow> v = v)"
    by (rule exI [of _ 0]) (simp add: popped_from_def)
next
  fix x assume p: "\<exists>m. popped_from (queue v) v m x \<and> (m = 0 \<longrightarrow> x = v)"
    and idle: "queue x = [] \<or> maxTasks x \<le> activeTasks x"
  then obtain m where m: "popped_from (queue v) v m x" and z: "m = 0 \<longrightarrow> x = v" by blast
  have "queue v \<noteq> [] \<and> activeTasks v < maxTasks v \<longrightarrow> 1 \<le> m"
    using z idle by (cases m) auto
  with m show "\<exists>m. popped_from (queue v) v m x \<and> (queue v \<noteq> [] \<and> activeTasks v < maxTasks v \<longrightarrow> 1 \<le> m)"
    by blast
next
  fix x :: world and t rest h t1 w1 f
  assume p: "\<exists>m. popped_from (queue v) v m x \<and> (m = 0 \<longrightarrow> x = v)" and q: "queue x = t # rest"
    and s: "select_host t (x\<lparr>queue := rest\<rparr>) = (h, t1, w1)"
  let ?x' = "w1\<lparr>activeTasks := activeTasks w1 + 1, pending := pending w1 @ [(t1, h)],
                sent := sent w1 @ [(t1, h)]\<rparr>"
  note fr = select_host_frame [OF s] select_host_world_frame [OF s]
  from p obtain m sn c where m: "m \<le> length (queue v)" and d: "queue x = drop m (queue v)"
    and sn: "sent x = sent v @ sn" and c: "calls x = calls v @ c"
    and sv: "\<forall>j<m. promise (queue v ! j) \<in> (\<lambda>(t, h). promise t) ` set sn \<union> fst ` set c"
    by (auto simp: popped_from_def)
  from d q have lt: "m < length (queue v)" by (cases "m < length (queue v)") auto
  from d q lt have hd: "queue v ! m = t"
    by (metis Cons_nth_drop_Suc list.inject)
  from d q lt have tl: "drop (Suc m) (queue v) = rest"
    by (metis Cons_nth_drop_Suc list.inject)
  have "popped_from (queue v) v (Suc m) ?x'"
    unfolding popped_from_def
  proof (intro conjI exI [of _ "sn @ [(t1, h)]"] exI [of _ c])
    show "Suc m \<le> length (queue v)" using lt by simp
    show "queue ?x' = drop (Suc m) (queue v)" using tl by (simp add: fr)
    show "sent ?x' = sent v @ sn @ [(t1, h)]" using sn by (simp add: fr)
    show "calls ?x' = calls v @ c" using c by (simp add: fr)
    show "\<forall>j<Suc m. promise (queue v ! j)
            \<in> (\<lambda>(t, h). promise t) ` set (sn @ [(t1, h)]) \<union> fst ` set c"
    proof (intro allI impI)
      fix j assume "j < Suc m"
      then consider "j < m" | "j = m" by linarith
      then show "promise (queue v ! j)
            \<in> (\<lambda>(t, h). promise t) ` set (sn @ [(t1, h)]) \<union> fst ` set c"
      proof cases
        case 1
        with sv show ?thesis by auto
      next
        case 2
        with hd fr(11) show ?thesis by simp
      qed
    qed
  qed
  then show "\<exists>m. popped_from (queue v) v m ?x' \<and> (queue v \<noteq> [] \<and> activeTasks v < maxTasks v \<longrightarrow> 1 \<le> m)"
    by (intro exI [of _ "Suc m"]) simp
next
  fix x :: world and t rest h t1 w1
  assume p: "\<exists>m. popped_from (queue v) v m x \<and> (m = 0 \<longrightarrow> x = v)" and q: "queue x = t # rest"
    and s: "select_host t (x\<lparr>queue := rest\<rparr>) = (h, t1, w1)"
  let ?x' = "on_error t1 h (new_TypeError ''this._hosts[host] is not a function'') w1"
  let ?r = "(promise t1, TaskReject (with_task_stack t1
              (new_TypeError ''this._hosts[host] is not a function'')))"
  note fr = select_host_frame [OF s] select_host_world_frame [OF s]
  from p obtain m sn c where m: "m \<le> length (queue v)" and d: "queue x = drop m (queue v)"
    and sn: "sent x = sent v @ sn" and c: "calls x = calls v @ c"
    and sv: "\<forall>j<m. promise (queue v ! j) \<in> (\<lambda>(t, h). promise t) ` set sn \<union> fst ` set c"
    by (auto simp: popped_from_def)
  from d q have lt: "m < length (queue v)" by (cases "m < length (queue v)") auto
  from d q lt have hd: "queue v ! m = t"
    by (metis Cons_nth_drop_Suc list.inject)
  from d q lt have tl: "drop (Suc m) (queue v) = rest"
    by (metis Cons_nth_drop_Suc list.inject)
  have "popped_from (queue v) v (Suc m) ?x'"
    unfolding popped_from_def
  proof (intro conjI exI [of _ sn] exI [of _ "c @ [?r]"])
    show "Suc m \<le> length (queue v)" using lt by simp
    show "queue ?x' = drop (Suc m) (queue v)"
      using tl by (simp add: on_error_TypeError failover_frame fr)
    show "sent ?x' = sent v @ sn" using sn by (simp add: on_error_frame fr)
    show "calls ?x' = calls v @ c @ [?r]"
      using c by (simp add: on_error_TypeError failover_world_frame fr)
    show "\<forall>j<Suc m. promise (queue v ! j)
            \<in> (\<lambda>(t, h). promise t) ` set sn \<union> fst ` set (c @ [?r])"
    proof (intro allI impI)
      fix j assume "j < Suc m"
      then consider "j < m" | "j = m" by linarith
      then show "promise (queue v ! j)
            \<in> (\<lambda>(t, h). promise t) ` set sn \<union> fst ` set (c @ [?r])"
      proof cases
        case 1
        with sv show ?thesis by auto
      next
        case 2
        with hd fr(11) show ?thesis by simp
      qed
    qed
  qed
  then show "\<exists>m. popped_from (queue v) v m ?x' \<and> (m = 0 \<longrightarrow> ?x' = v)"
    by (intro exI [of _ "Suc m"]) simp
qed
lemma popped_from_later:
  assumes "popped_from q v m x" and "sent v = sent w @ s0" and "calls v = calls w @ c0"
  shows "popped_from q w m x"
proof -
  from assms(1) obtain s c where m: "m \<le> length q" and d: "queue x = drop m q"
    and s: "sent x = sent v @ s" and c: "calls x = calls v @ c"
    and sv: "\<forall>j<m. promise (q ! j) \<in> (\<lambda>(t, h). promise t) ` set s \<union> fst ` set c"
    by (auto simp: popped_from_def)
  show ?thesis
    unfolding popped_from_def
  proof (intro conjI exI [of _ "s0 @ s"] exI [of _ "c0 @ c"])
    show "m \<le> length q" by (rule m)
    show "queue x = drop m q" by (rule d)
    show "sent x = sent w @ s0 @ s" using s assms(2) by simp
    show "calls x = calls w @ c0 @ c" using c assms(3) by simp
    show "\<forall>j<m. promise (q ! j) \<in> (\<lambda>(t, h). promise t) ` set (s0 @ s) \<union> fst ` set (c0 @ c)"
      using sv by auto
  qed
qed

lemma on_response_logs:
  assumes "on_response url_parse JSON_parse transform_of t h r w = Inr w'"
  shows "sent w' = sent w" and "\<exists>c0. calls w' = calls w @ c0"
    and "\<exists>extra. queue w' = queue w @ extra"
  using assms
  by (auto simp: on_response_def addToHostList_def Let_def
      split: option.splits if_splits sum.splits list.splits)

lemma on_error_logs:
  "\<exists>c0. calls (on_error t h err w) = calls w @ c0"
  "\<exists>extra. queue (on_error t h err w) = queue w @ extra"
  by (auto simp: on_error_def failover_def Let_def)

lemma step_pops:
  assumes ok: "slots_ok w" and st: "step url_parse JSON_parse transform_of ev w = Some (Inr w')"
  shows "\<exists>extra m. popped_from (queue w @ extra) w m w' \<and>
                    (\<not> is_request ev \<and> queue w \<noteq> [] \<longrightarrow> 1 \<le> m)"
proof -
  have a: "activeTasks w \<le> maxTasks w" using ok by (simp add: slots_ok_def)
  have main: "\<exists>extra m. popped_from (queue w @ extra) w m w' \<and>
                    (\<not> is_request ev \<and> queue w \<noteq> [] \<longrightarrow> 1 \<le> m)"
    if w': "w' = runQueue v" and q: "queue v = queue w @ extra" and s: "sent v = sent w"
      and c: "calls v = calls w @ c0"
      and slot: "\<not> is_request ev \<longrightarrow> activeTasks v < maxTasks v" for v extra c0
  proof -
    from runQueue_pops [of v] obtain m where p: "popped_from (queue v) v m (runQueue v)"
      and one: "queue v \<noteq> [] \<and> activeTasks v < maxTasks v \<longrightarrow> 1 \<le> m"
      by blast
    from popped_from_later [OF p, of w "[]" c0] s c
    have "popped_from (queue w @ extra) w m w'" using q w' by simp
    moreover have "\<not> is_request ev \<and> queue w \<noteq> [] \<longrightarrow> 1 \<le> m"
      using one slot q by simp
    ultimately show ?thesis by blast
  qed
  show ?thesis
  proof (cases ev)
    case (Request p)
    let ?t = "\<lparr>promise = nextPromise w, retries = 0, host = req_host p,
               allowDirtyRead = req_allowDirtyRead p, options = req_options p,
               stack = (if precaptureStackTraces w
                        then map_option (\<lambda>s. CHR 0x0A # s) (req_callsite p) else None)\<rparr>"
    let ?v = "w\<lparr>queue := queue w @ [?t], nextPromise := nextPromise w + 1\<rparr>"
    from st Request have "w' = runQueue ?v" by (simp add: step_def request_def Let_def)
    from main [OF this, of "[?t]" "[]"] Request show ?thesis by simp
  next
    case (Completion i out)
    with st have i: "i < length (pending w)"
      by (auto simp: step_def split: if_splits)
    obtain t h where th: "pending w ! i = (t, h)" by (cases "pending w ! i") auto
    let ?v = "w\<lparr>pending := take i (pending w) @ drop (Suc i) (pending w),
                activeTasks := activeTasks w - 1\<rparr>"
    from st Completion i th
    have cb: "callback url_parse JSON_parse transform_of t h out
               (w\<lparr>pending := take i (pending w) @ drop (Suc i) (pending w)\<rparr>) = Inr w'"
      by (simp add: step_def)
    show ?thesis
    proof (cases out)
      case (Failure err)
      with cb have w': "w' = runQueue (on_error t h err ?v)" by (simp add: callback_def)
      from on_error_logs [of t h err ?v] obtain c0 extra where
        "calls (on_error t h err ?v) = calls w @ c0"
        "queue (on_error t h err ?v) = queue w @ extra" by auto
      from main [OF w' this(2) _ this(1)] a show ?thesis by (simp add: on_error_frame)
    next
      case (Success r)
      with cb obtain w2 where o: "on_response url_parse JSON_parse transform_of t h r ?v = Inr w2"
        and w': "w' = runQueue w2"
        by (auto simp: callback_def Let_def split: sum.splits)
      from on_response_logs [OF o] obtain c0 extra where
        "sent w2 = sent w" "calls w2 = calls w @ c0" "queue w2 = queue w @ extra" by auto
      from main [OF w' this(3) this(1) this(2)] a on_response_frame(1,2) [OF o]
      show ?thesis by simp
    qed
  qed
qed

lemma step_logs:
  assumes "slots_ok w" and "step url_parse JSON_parse transform_of ev w = Some (Inr w')"
  shows "\<exists>s c. sent w' = sent w @ s \<and> calls w' = calls w @ c"
  using step_pops [OF assms] by (auto simp: popped_from_def)

lemma run_logs:
  "slots_ok w \<Longrightarrow> run url_parse JSON_parse transform_of evs w = Some (Inr w') \<Longrightarrow>
   \<exists>s c. sent w' = sent w @ s \<and> calls w' = calls w @ c"
proof (induction evs arbitrary: w)
  case Nil
  then show ?case by simp
next
  case (Cons e es)
  from Cons.prems(2) obtain w1 where s: "step url_parse JSON_parse transform_of e w = Some (Inr w1)"
    and r: "run url_parse JSON_parse transform_of es w1 = Some (Inr w')"
    by (auto split: option.splits sum.splits)
  from step_logs [OF Cons.prems(1) s] obtain s1 c1 where
    l1: "sent w1 = sent w @ s1" "calls w1 = calls w @ c1" by blast
  from Cons.IH [OF step_slots [OF Cons.prems(1) s] r] obtain s2 c2 where
    "sent w' = sent w1 @ s2" "calls w' = calls w1 @ c2" by blast
  with l1 show ?case by simp
qed

lemma served_mono:
  assumes "sent w1 = sent w @ s1" and "calls w1 = calls w @ c1"
    and "sent w' = sent w1 @ s2" and "calls w' = calls w1 @ c2"
  shows "served w1 w' \<subseteq> served w w'"
    and "(\<lambda>(t, h). promise t) ` set s1 \<union> fst ` set c1 \<subseteq> served w w'"
  using assms by (auto simp: served_def)

lemma run_serves:
  "slots_ok w \<Longrightarrow> run url_parse JSON_parse transform_of evs w = Some (Inr w') \<Longrightarrow> k < length (queue w) \<Longrightarrow>
   k < length (filter (\<lambda>e. \<not> is_request e) evs) \<Longrightarrow> promise (queue w ! k) \<in> served w w'"
proof (induction evs arbitrary: w k)
  case Nil
  then show ?case by simp
next
  case (Cons e es)
  from Cons.prems(2) obtain w1 where s: "step url_parse JSON_parse transform_of e w = Some (Inr w1)"
    and r: "run url_parse JSON_parse transform_of es w1 = Some (Inr w')"
    by (auto split: option.splits sum.splits)
  note ok1 = step_slots [OF Cons.prems(1) s]
  from step_pops [OF Cons.prems(1) s] obtain extra m s1 c1 where
    m: "m \<le> length (queue w @ extra)" and d: "queue w1 = drop m (queue w @ extra)"
    and l1: "sent w1 = sent w @ s1" "calls w1 = calls w @ c1"
    and sv: "\<forall>j<m. promise ((queue w @ extra) ! j) \<in> (\<lambda>(t, h). promise t) ` set s1 \<union> fst ` set c1"
    and one: "\<not> is_request e \<and> queue w \<noteq> [] \<longrightarrow> 1 \<le> m"
    by (auto simp: popped_from_def)
  from run_logs [OF ok1 r] obtain s2 c2 where
    l2: "sent w' = sent w1 @ s2" "calls w' = calls w1 @ c2" by blast
  note mono = served_mono [OF l1 l2]
  have at: "(queue w @ extra) ! k = queue w ! k"
    using Cons.prems(3) by (simp add: nth_append)
  show ?case
  proof (cases "k < m")
    case True
    with sv at have "promise (queue w ! k) \<in> (\<lambda>(t, h). promise t) ` set s1 \<union> fst ` set c1"
      by force
    with mono(2) show ?thesis by blast
  next
    case False
    then have km: "m \<le> k" by simp
    have len: "k - m < length (queue w1)" using d km Cons.prems(3) by (simp del: drop_append)
    have "drop m (queue w @ extra) ! (k - m) = (queue w @ extra) ! (m + (k - m))"
      using m by (intro nth_drop) simp
    then have nth: "queue w1 ! (k - m) = queue w ! k"
      using d km at by (simp del: drop_append)
    have ne: "queue w \<noteq> []" using Cons.prems(3) by auto
    have cnt: "k - m < length (filter (\<lambda>e. \<not> is_request e) es)"
    proof (cases "is_request e")
      case True
      with Cons.prems(4) show ?thesis by simp
    next
      case False
      with one ne have "1 \<le> m" by simp
      with Cons.prems(4) False km show ?thesis by simp
    qed
    from Cons.IH [OF ok1 r len cnt] nth mono(1) show ?thesis by auto
  qed
qed
lemma calls_settled_frame:
  assumes "calls_settled JSON_parse transform_of w"
    and "set (pending w') \<subseteq> set (pending w) \<union> set new" and "sent w' = sent w @ new"
    and "calls w' = calls w \<or> (\<exists>n err. calls w' = calls w @ [(n, TaskReject err)])"
  shows "calls_settled JSON_parse transform_of w'"
proof -
  from assms(1) have p: "set (pending w) \<subseteq> set (sent w)"
    and c: "\<forall>(n, c) \<in> set (calls w).
              case c of
                TaskReject err \<Rightarrow> True
              | TaskResolve r \<Rightarrow>
                  \<exists>(t, h) \<in> set (sent w). promise t = n \<and>
                     \<not> isl (task_resolve JSON_parse (opt_expectBinary (options t))
                              (transform_of n) r)"
    by (simp_all add: calls_settled_def)
  have p': "set (pending w') \<subseteq> set (sent w')" using p assms(2,3) by auto
  have c': "\<forall>(n, c) \<in> set (calls w').
              case c of
                TaskReject err \<Rightarrow> True
              | TaskResolve r \<Rightarrow>
                  \<exists>(t, h) \<in> set (sent w'). promise t = n \<and>
                     \<not> isl (task_resolve JSON_parse (opt_expectBinary (options t))
                              (transform_of n) r)"
  proof (intro ballI)
    fix x assume x: "x \<in> set (calls w')"
    obtain n k where nk: "x = (n, k)" by (cases x) auto
    show "case x of (n, c) \<Rightarrow>
              case c of
                TaskReject err \<Rightarrow> True
              | TaskResolve r \<Rightarrow>
                  \<exists>(t, h) \<in> set (sent w'). promise t = n \<and>
                     \<not> isl (task_resolve JSON_parse (opt_expectBinary (options t))
                              (transform_of n) r)"
    proof (cases k)
      case (TaskReject err)
      with nk show ?thesis by simp
    next
      case (TaskResolve r)
      with x nk assms(4) have "(n, TaskResolve r) \<in> set (calls w)" by auto
      with c have "\<exists>(t, h) \<in> set (sent w). promise t = n \<and>
                     \<not> isl (task_resolve JSON_parse (opt_expectBinary (options t))
                              (transform_of n) r)"
        by fastforce
      with assms(3) nk TaskResolve show ?thesis by auto
    qed
  qed
  from p' c' show ?thesis by (simp add: calls_settled_def)
qed

lemma runQueue_settled:
  "calls_settled JSON_parse transform_of w \<Longrightarrow> calls_settled JSON_parse transform_of (runQueue w)"
proof (rule runQueue_rule
    [where P = "calls_settled JSON_parse transform_of"
       and Q = "calls_settled JSON_parse transform_of"])
  fix v :: world and t rest h t1 w1 f
  assume p: "calls_settled JSON_parse transform_of v"
    and s: "select_host t (v\<lparr>queue := rest\<rparr>) = (h, t1, w1)"
  note fr = select_host_world_frame [OF s]
  show "calls_settled JSON_parse transform_of
          (w1\<lparr>activeTasks := activeTasks w1 + 1, pending := pending w1 @ [(t1, h)],
              sent := sent w1 @ [(t1, h)]\<rparr>)"
    by (rule calls_settled_frame [OF p, where new = "[(t1, h)]"]) (simp_all add: fr)
next
  fix v :: world and t rest h t1 w1
  assume p: "calls_settled JSON_parse transform_of v"
    and s: "select_host t (v\<lparr>queue := rest\<rparr>) = (h, t1, w1)"
  note fr = select_host_world_frame [OF s]
  show "calls_settled JSON_parse transform_of
          (on_error t1 h (new_TypeError ''this._hosts[host] is not a function'') w1)"
    by (rule calls_settled_frame [OF p, where new = "[]"])
      (simp_all add: on_error_frame on_error_TypeError failover_world_frame fr)
qed

lemma on_error_settled:
  assumes "calls_settled JSON_parse transform_of w"
  shows "calls_settled JSON_parse transform_of (on_error t h err w)"
proof (rule calls_settled_frame [OF assms, where new = "[]"])
  show "calls (on_error t h err w) = calls w \<or>
        (\<exists>n e. calls (on_error t h err w) = calls w @ [(n, TaskReject e)])"
    by (auto simp: on_error_def failover_def Let_def)
qed (simp_all add: on_error_frame)

lemma on_response_settled:
  assumes "calls_settled JSON_parse transform_of w" and "(t, h) \<in> set (sent w)"
    and "on_response url_parse JSON_parse transform_of t h r w = Inr w'"
  shows "calls_settled JSON_parse transform_of w'"
proof (cases "is_leader_redirect r")
  case True
  then obtain url where "statusCode r = Some 503" and "leader_endpoint r = Some url"
    by (auto simp: is_leader_redirect_def)
  from on_response_redirect [OF this assms(3)] obtain w1 index where
    a: "addToHostList url_parse [url] w = (Inr [index], w1)" and
    w': "w' = (if strict_eq (activeHost w1) h then w1\<lparr>activeHost := Num index\<rparr> else w1)
                  \<lparr>queue := queue w1 @ [t\<lparr>host := Some (Num index)\<rparr>]\<rparr>"
    by blast
  note r = addToHostList_returns [OF a]
  have "pending w1 = pending w" "calls w1 = calls w" "sent w1 = sent w"
    by (subst r(1), simp)+
  with w' show ?thesis
    by (intro calls_settled_frame [OF assms(1), where new = "[]"]) auto
next
  case False
  let ?r = "r\<lparr>arangojsHostId := Some h\<rparr>"
  from on_response_plain_Inr [OF False assms(3)]
  have w': "w' = w\<lparr>calls := calls w @ [(promise t, TaskResolve ?r)]\<rparr>" .
  from on_response_plain [OF False, of url_parse JSON_parse transform_of t h w] assms(3)
  have ret: "\<not> isl (task_resolve JSON_parse (opt_expectBinary (options t))
                       (transform_of (promise t)) ?r)"
    by (auto split: sum.splits)
  from assms(1) have p: "set (pending w) \<subseteq> set (sent w)"
    and c: "\<forall>(n, c) \<in> set (calls w).
              case c of
                TaskReject err \<Rightarrow> True
              | TaskResolve r \<Rightarrow>
                  \<exists>(t, h) \<in> set (sent w). promise t = n \<and>
                     \<not> isl (task_resolve JSON_parse (opt_expectBinary (options t))
                              (transform_of n) r)"
    by (simp_all add: calls_settled_def)
  have "\<exists>(t', h') \<in> set (sent w). promise t' = promise t \<and>
          \<not> isl (task_resolve JSON_parse (opt_expectBinary (options t'))
                   (transform_of (promise t)) ?r)"
    using assms(2) ret by auto
  with p c show ?thesis unfolding w' calls_settled_def by simp
qed

lemma step_settled:
  assumes "calls_settled JSON_parse transform_of w"
    and "step url_parse JSON_parse transform_of ev w = Some (Inr w')"
  shows "calls_settled JSON_parse transform_of w'"
proof (cases ev)
  case (Request p)
  have "calls_settled JSON_parse transform_of
          (w\<lparr>queue := queue w @ [x], nextPromise := nextPromise w + 1\<rparr>)" for x
    by (rule calls_settled_frame [OF assms(1), where new = "[]"]) simp_all
  with assms(2) Request show ?thesis
    by (auto simp: step_def request_def Let_def intro!: runQueue_settled)
next
  case (Completion i out)
  with assms(2) have i: "i < length (pending w)"
    by (auto simp: step_def split: if_splits)
  obtain t h where th: "pending w ! i = (t, h)" by (cases "pending w ! i") auto
  let ?v = "w\<lparr>pending := take i (pending w) @ drop (Suc i) (pending w),
              activeTasks := activeTasks w - 1\<rparr>"
  have sub: "set (take i (pending w) @ drop (Suc i) (pending w)) \<subseteq> set (pending w)"
    by (auto dest: in_set_takeD in_set_dropD)
  have v: "calls_settled JSON_parse transform_of ?v"
    by (rule calls_settled_frame [OF assms(1), where new = "[]"]) (use sub in simp_all)
  from assms(1) i th have m: "(t, h) \<in> set (sent ?v)"
    by (auto simp: calls_settled_def dest: nth_mem)
  from assms(2) Completion i th
  have c: "callback url_parse JSON_parse transform_of t h out
             (w\<lparr>pending := take i (pending w) @ drop (Suc i) (pending w)\<rparr>) = Inr w'"
    by (simp add: step_def)
  show ?thesis
  proof (cases out)
    case (Failure err)
    with c have "w' = runQueue (on_error t h err ?v)" by (simp add: callback_def)
    with on_error_settled [OF v] show ?thesis by (simp add: runQueue_settled)
  next
    case (Success r)
    with c obtain w2 where
      o: "on_response url_parse JSON_parse transform_of t h r ?v = Inr w2"
      and w2: "w' = runQueue w2"
      by (auto simp: callback_def Let_def split: sum.splits)
    from on_response_settled [OF v m o] w2 show ?thesis by (simp add: runQueue_settled)
  qed
qed

lemma run_settled:
  "calls_settled JSON_parse transform_of w \<Longrightarrow>
   run url_parse JSON_parse transform_of evs w = Some (Inr w') \<Longrightarrow>
   calls_settled JSON_parse transform_of w'"
proof (induction evs arbitrary: w)
  case Nil
  then show ?case by simp
next
  case (Cons e es)
  from Cons.prems(2) obtain w1 where s: "step url_parse JSON_parse transform_of e w = Some (Inr w1)"
    and r: "run url_parse JSON_parse transform_of es w1 = Some (Inr w')"
    by (auto split: option.splits sum.splits)
  from Cons.IH [OF step_settled [OF Cons.prems(1) s] r] show ?case .
qed

text \<open>
  Claim C9, amended. In every world that a constructed connection reaches by requests and
  completions, none of which throws: every promise created so far is in exactly one of
  three places, and there once: with a task in the queue, with a task in flight, or among
  the calls of \<open>resolve\<close> and \<open>reject\<close>; so no promise is settled twice or both
  ways, and no task is dropped. With a positive bound on concurrency a task never waits
  while nothing is in flight, so once no callback is pending every promise is settled.
  A task at position \<open>k\<close> of the queue has been handed to a transport (or rejected, its
  host missing) by the time \<open>k + 1\<close> callbacks have been invoked, whatever is requested
  and answered meanwhile. A callback invoked with an error rejects the promise, or puts
  the task back with one more retry, which it does only below the retry budget; invoked
  with a response that is no leader redirect it calls \<open>resolve\<close>, whose wrapper
  settles the promise one way unless it throws, and then the callback throws; so every
  call of \<open>resolve\<close> in the log of such a world has settled the promise. As long as
  no response is a leader redirect the completions are bounded: each one uses up one unit
  of \<open>fuel\<close>, of which a request adds one plus the retry budget, and such a
  completion throws only when the wrapper of \<open>resolve\<close> does. Hence, if every
  transport invocation calls back once, no callback throws and only finitely many
  responses are leader redirects, every promise is settled in the end, by exactly one
  call.
\<close>

theorem C9_settled_exactly_once:
  assumes "new_Connection url_parse rnd config = Inr c"
    and "run url_parse JSON_parse transform_of evs (boot c) = Some (Inr w)"
  shows "mset (ids w) = mset [0..<nextPromise w] \<and>
         distinct (ids w) \<and> set (ids w) = {..<nextPromise w} \<and>
         (0 < maxTasks w \<and> pending w = [] \<longrightarrow>
            queue w = [] \<and> distinct (map fst (calls w)) \<and>
            set (map fst (calls w)) = {..<nextPromise w}) \<and>
         (\<forall>k more w'. k < length (queue w) \<and> run url_parse JSON_parse transform_of more w = Some (Inr w') \<and>
                      k < length (filter (\<lambda>e. \<not> is_request e) more) \<longrightarrow>
            promise (queue w ! k) \<in> served w w') \<and>
         (\<forall>t h err.
            (if falsy_host (host t) \<and> shouldRetry w \<and> int (retries t) < retry_budget w \<and>
                is_ECONNREFUSED err
             then queue (on_error t h err w) = queue w @ [t\<lparr>retries := retries t + 1\<rparr>] \<and>
                  calls (on_error t h err w) = calls w
             else queue (on_error t h err w) = queue w \<and>
                  calls (on_error t h err w)
                    = calls w @ [(promise t, TaskReject (with_task_stack t err))])) \<and>
         (\<forall>t h r. \<not> is_leader_redirect r \<longrightarrow>
            on_response url_parse JSON_parse transform_of t h r w =
              (case wrapper_error JSON_parse transform_of t h r of
                 None \<Rightarrow>
                   Inr (w\<lparr>calls := calls w @
                          [(promise t, TaskResolve (r\<lparr>arangojsHostId := Some h\<rparr>))]\<rparr>)
               | Some e \<Rightarrow>
                   Inl (e, w\<lparr>calls := calls w @
                             [(promise t, TaskResolve (r\<lparr>arangojsHostId := Some h\<rparr>))]\<rparr>))) \<and>
         (\<forall>t h r. wrapper_error JSON_parse transform_of t h r = None \<longrightarrow>
            (\<exists>s. settle JSON_parse (opt_expectBinary (options t)) (transform_of (promise t))
                    (TaskResolve (r\<lparr>arangojsHostId := Some h\<rparr>)) = Inr s)) \<and>
         (\<forall>n r. (n, TaskResolve r) \<in> set (calls w) \<longrightarrow>
            (\<exists>t h s. (t, h) \<in> set (sent w) \<and> promise t = n \<and>
                     settle JSON_parse (opt_expectBinary (options t)) (transform_of n)
                       (TaskResolve r) = Inr s)) \<and>
         (\<forall>more x. list_all (\<lambda>ev. \<not> redirect_event ev) more \<and>
                    run url_parse JSON_parse transform_of more w = Some x \<longrightarrow>
            (case x of
               Inr w' \<Rightarrow>
                 fuel w' + length (filter plain_completion more)
                   \<le> fuel w + length (filter is_request more) * Suc (nat (retry_budget w))
             | Inl (e, w') \<Rightarrow>
                 \<exists>t h r. wrapper_error JSON_parse transform_of t h r = Some e)) \<and>
         ((fuel w = 0) = (queue w = [] \<and> pending w = []))"
proof -
  have "mset (ids (boot c)) = mset [0..<nextPromise (boot c)]"
    using new_Connection_fields(3) [OF assms(1)] by (simp add: mset_ids boot_fields)
  from run_ids [OF this assms(2)] have m: "mset (ids w) = mset [0..<nextPromise w]" .
  have d: "distinct (ids w)"
    using mset_eq_imp_distinct_iff [OF m] by simp
  have s: "set (ids w) = {..<nextPromise w}"
    using mset_eq_setD [OF m] by (simp add: atLeast0LessThan)
  from run_slots [OF boot_slots [OF assms(1)] assms(2)] have ok: "slots_ok w" .
  have quiet: "queue w = [] \<and> distinct (map fst (calls w)) \<and>
               set (map fst (calls w)) = {..<nextPromise w}"
    if "0 < maxTasks w" and "pending w = []"
  proof -
    from ok that have q: "queue w = []" by (auto simp: slots_ok_def)
    with that(2) have "ids w = map fst (calls w)" by (simp add: ids_def)
    with d s q show ?thesis by simp
  qed
  have fifo: "promise (queue w ! k) \<in> served w w'"
    if "k < length (queue w) \<and> run url_parse JSON_parse transform_of more w = Some (Inr w') \<and>
        k < length (filter (\<lambda>e. \<not> is_request e) more)" for k more w'
    using run_serves [OF ok, of url_parse JSON_parse transform_of more w' k] that by blast
  have err: "if falsy_host (host t) \<and> shouldRetry w \<and> int (retries t) < retry_budget w \<and>
                is_ECONNREFUSED err
             then queue (on_error t h err w) = queue w @ [t\<lparr>retries := retries t + 1\<rparr>] \<and>
                  calls (on_error t h err w) = calls w
             else queue (on_error t h err w) = queue w \<and>
                  calls (on_error t h err w)
                    = calls w @ [(promise t, TaskReject (with_task_stack t err))]"
    for t h err
    using retry_iff [of t h err w] reject_iff [of t h err w] by (simp split: if_splits)
  have later: "case x of
               Inr w' \<Rightarrow>
                 fuel w' + length (filter plain_completion more)
                   \<le> fuel w + length (filter is_request more) * Suc (nat (retry_budget w))
             | Inl (e, w') \<Rightarrow>
                 \<exists>t h r. wrapper_error JSON_parse transform_of t h r = Some e"
    if "list_all (\<lambda>ev. \<not> redirect_event ev) more \<and>
        run url_parse JSON_parse transform_of more w = Some x"
    for more x
    using quiet_run_fuel [of more url_parse JSON_parse transform_of w x] that
    by (auto split: sum.splits)
  have plain: "on_response url_parse JSON_parse transform_of t h r w =
              (case wrapper_error JSON_parse transform_of t h r of
                 None \<Rightarrow>
                   Inr (w\<lparr>calls := calls w @
                          [(promise t, TaskResolve (r\<lparr>arangojsHostId := Some h\<rparr>))]\<rparr>)
               | Some e \<Rightarrow>
                   Inl (e, w\<lparr>calls := calls w @
                             [(promise t, TaskResolve (r\<lparr>arangojsHostId := Some h\<rparr>))]\<rparr>))"
    if "\<not> is_leader_redirect r" for t h r
    using on_response_plain [OF that, of url_parse JSON_parse transform_of t h w]
    by (simp add: wrapper_error_def split: sum.splits)
  have "calls_settled JSON_parse transform_of (boot c)"
    by (simp add: calls_settled_def boot_fields)
  from run_settled [OF this assms(2)] have cs: "calls_settled JSON_parse transform_of w" .
  have logged: "\<exists>t h s. (t, h) \<in> set (sent w) \<and> promise t = n \<and>
                     settle JSON_parse (opt_expectBinary (options t)) (transform_of n)
                       (TaskResolve r) = Inr s"
    if "(n, TaskResolve r) \<in> set (calls w)" for n r
  proof -
    from cs that have "\<exists>(t, h) \<in> set (sent w). promise t = n \<and>
                \<not> isl (task_resolve JSON_parse (opt_expectBinary (options t))
                         (transform_of n) r)"
      unfolding calls_settled_def by fastforce
    then obtain t h where "(t, h) \<in> set (sent w)" "promise t = n"
      "\<not> isl (task_resolve JSON_parse (opt_expectBinary (options t)) (transform_of n) r)"
      by auto
    then show ?thesis
      by (cases "task_resolve JSON_parse (opt_expectBinary (options t)) (transform_of n) r")
        (auto simp: settle_def)
  qed
  have settles: "\<exists>s. settle JSON_parse (opt_expectBinary (options t)) (transform_of (promise t))
                    (TaskResolve (r\<lparr>arangojsHostId := Some h\<rparr>)) = Inr s"
    if "wrapper_error JSON_parse transform_of t h r = None" for t h r
    using that by (simp add: wrapper_error_def settle_def split: sum.splits)
  show ?thesis
  proof (intro conjI)
    show "mset (ids w) = mset [0..<nextPromise w]" by (rule m)
    show "distinct (ids w)" by (rule d)
    show "set (ids w) = {..<nextPromise w}" by (rule s)
    show "0 < maxTasks w \<and> pending w = [] \<longrightarrow>
            queue w = [] \<and> distinct (map fst (calls w)) \<and>
            set (map fst (calls w)) = {..<nextPromise w}"
      using quiet by (intro impI) (elim conjE, assumption+)
    show "\<forall>k more w'. k < length (queue w) \<and> run url_parse JSON_parse transform_of more w = Some (Inr w') \<and>
                      k < length (filter (\<lambda>e. \<not> is_request e) more) \<longrightarrow>
            promise (queue w ! k) \<in> served w w'"
      by (intro allI impI) (rule fifo)
    show "\<forall>t h err.
            (if falsy_host (host t) \<and> shouldRetry w \<and> int (retries t) < retry_budget w \<and>
                is_ECONNREFUSED err
             then queue (on_error t h err w) = queue w @ [t\<lparr>retries := retries t + 1\<rparr>] \<and>
                  calls (on_error t h err w) = calls w
             else queue (on_error t h err w) = queue w \<and>
                  calls (on_error t h err w)
                    = calls w @ [(promise t, TaskReject (with_task_stack t err))])"
      by (intro allI) (rule err)
    show "\<forall>t h r. \<not> is_leader_redirect r \<longrightarrow>
            on_response url_parse JSON_parse transform_of t h r w =
              (case wrapper_error JSON_parse transform_of t h r of
                 None \<Rightarrow>
                   Inr (w\<lparr>calls := calls w @
                          [(promise t, TaskResolve (r\<lparr>arangojsHostId := Some h\<rparr>))]\<rparr>)
               | Some e \<Rightarrow>
                   Inl (e, w\<lparr>calls := calls w @
                             [(promise t, TaskResolve (r\<lparr>arangojsHostId := Some h\<rparr>))]\<rparr>))"
      by (intro allI impI) (rule plain)
    show "\<forall>t h r. wrapper_error JSON_parse transform_of t h r = None \<longrightarrow>
            (\<exists>s. settle JSON_parse (opt_expectBinary (options t)) (transform_of (promise t))
                    (TaskResolve (r\<lparr>arangojsHostId := Some h\<rparr>)) = Inr s)"
      by (intro allI impI) (rule settles)
    show "\<forall>n r. (n, TaskResolve r) \<in> set (calls w) \<longrightarrow>
            (\<exists>t h s. (t, h) \<in> set (sent w) \<and> promise t = n \<and>
                     settle JSON_parse (opt_expectBinary (options t)) (transform_of n)
                       (TaskResolve r) = Inr s)"
      by (intro allI impI) (rule logged)
    show "\<forall>more x. list_all (\<lambda>ev. \<not> redirect_event ev) more \<and>
                    run url_parse JSON_parse transform_of more w = Some x \<longrightarrow>
            (case x of
               Inr w' \<Rightarrow>
                 fuel w' + length (filter plain_completion more)
                   \<le> fuel w + length (filter is_request more) * Suc (nat (retry_budget w))
             | Inl (e, w') \<Rightarrow>
                 \<exists>t h r. wrapper_error JSON_parse transform_of t h r = Some e)"
      by (intro allI impI) (rule later)
    show "(fuel w = 0) = (queue w = [] \<and> pending w = [])" by (rule fuel_zero)
  qed
qed
text \<open>
  The retry budget at work, for a task that is not pinned: with \<open>maxRetries = 2\<close> and a
  connection refused at every attempt, the task is sent three times (to hosts 0, 1 and 0);
  after the second refusal nothing has been called, and the third refusal rejects the
  promise with the error.
\<close>

lemma retry_budget_exhaustion:
  "new_Connection sample_url_parse (0, 0) retry2_config = Inr retry2_connection"
  "run sample_url_parse sample_JSON_parse no_transform [Request sample_request] (boot retry2_connection)
     = Some (Inr retry2_started)"
  "run sample_url_parse sample_JSON_parse no_transform
     [Completion 0 (Failure ECONNREFUSED), Completion 0 (Failure ECONNREFUSED)] retry2_started
     = Some (Inr retry2_twice)"
  "run sample_url_parse sample_JSON_parse no_transform [Completion 0 (Failure ECONNREFUSED)] retry2_twice
     = Some (Inr retry2_done)"
  "calls retry2_twice = []" "length (sent retry2_twice) = 3"
  "calls retry2_done = [(0, TaskReject ECONNREFUSED)]" "sent retry2_done = sent retry2_twice"
proof -
  show "new_Connection sample_url_parse (0, 0) retry2_config = Inr retry2_connection"
    by code_simp
  show "run sample_url_parse sample_JSON_parse no_transform [Request sample_request] (boot retry2_connection)
     = Some (Inr retry2_started)"
    by code_simp
  show "run sample_url_parse sample_JSON_parse no_transform
     [Completion 0 (Failure ECONNREFUSED), Completion 0 (Failure ECONNREFUSED)] retry2_started
     = Some (Inr retry2_twice)"
    by code_simp
  show "run sample_url_parse sample_JSON_parse no_transform [Completion 0 (Failure ECONNREFUSED)] retry2_twice
     = Some (Inr retry2_done)"
    by code_simp
  show "calls retry2_twice = []" "length (sent retry2_twice) = 3"
    "calls retry2_done = [(0, TaskReject ECONNREFUSED)]" "sent retry2_done = sent retry2_twice"
    by (simp_all add: retry2_twice_def retry2_done_def boot_def)
qed
theorem C9_settled_exactly_once_witness:
  "new_Connection sample_url_parse (0, 0) retry2_config = Inr retry2_connection \<and>
   run sample_url_parse sample_JSON_parse no_transform [Request sample_request] (boot retry2_connection)
     = Some (Inr retry2_started) \<and>
   ids retry2_started = [0] \<and> nextPromise retry2_started = 1 \<and> fuel retry2_started = 3 \<and>
   run sample_url_parse sample_JSON_parse no_transform
     [Completion 0 (Failure ECONNREFUSED), Completion 0 (Failure ECONNREFUSED),
      Completion 0 (Failure ECONNREFUSED)] retry2_started = Some (Inr retry2_done) \<and>
   fuel retry2_done = 0 \<and> pending retry2_done = [] \<and> queue retry2_done = [] \<and>
   calls retry2_done = [(0, TaskReject ECONNREFUSED)]"
proof -
  let ?more = "[Completion 0 (Failure ECONNREFUSED), Completion 0 (Failure ECONNREFUSED),
      Completion 0 (Failure ECONNREFUSED)]"
  note n = retry_budget_exhaustion(1) and r = retry_budget_exhaustion(2)
  have m: "run sample_url_parse sample_JSON_parse no_transform ?more retry2_started = Some (Inr retry2_done)"
    using run_append [OF retry_budget_exhaustion(3),
        of "[Completion 0 (Failure ECONNREFUSED)]"] retry_budget_exhaustion(4)
    by simp
  have i: "ids retry2_started = [0]" "nextPromise retry2_started = 1"
    by (simp_all add: ids_def retry2_started_def boot_def retry2_connection_def sample_task_def)
  have f: "fuel retry2_started = 3"
    by (simp add: fuel_def task_fuel_def retry_budget_def retry2_started_def boot_def
        retry2_connection_def sample_task_def)
  note T = C9_settled_exactly_once [OF n r]
  from T have "\<forall>more x. list_all (\<lambda>ev. \<not> redirect_event ev) more \<and>
                    run sample_url_parse sample_JSON_parse no_transform more retry2_started = Some x \<longrightarrow>
            (case x of
               Inr w' \<Rightarrow>
                 fuel w' + length (filter plain_completion more)
                   \<le> fuel retry2_started +
                      length (filter is_request more) * Suc (nat (retry_budget retry2_started))
             | Inl (e, w') \<Rightarrow>
                 \<exists>t h r. wrapper_error sample_JSON_parse no_transform t h r = Some e)"
    by blast
  from this [rule_format, of ?more "Inr retry2_done"] m f
  have z: "fuel retry2_done = 0" by simp
  have "(fuel retry2_done = 0) = (queue retry2_done = [] \<and> pending retry2_done = [])"
    by (rule fuel_zero)
  with z have e: "queue retry2_done = []" "pending retry2_done = []" by simp_all
  from n r i f m z e retry_budget_exhaustion(7) show ?thesis by simp
qed

end
